theory Spec2Isabelle
  imports Main "HOL-Library.Char_ord" "HOL-Library.List_Lexorder" "HOL-Library.Multiset"
begin

section \<open>Data model of \<open>backend_app.py\<close>\<close>

text \<open>
  A post is a Python dictionary with string keys. The values the code stores are integers
  (the id) and strings (title and content); both kinds are kept, since \<open>get_next_id\<close>
  guards against ids that are not numbers and \<open>find_str\<close> calls \<open>.lower()\<close> on a value.
  Strings are lists of characters with code points below 256, compared by code point as
  Python compares \<open>str\<close>. The module-level list \<open>POSTS\<close> is passed explicitly; every
  element is a dictionary of its own (the code only ever appends freshly built ones).
\<close>

datatype pyval = VInt int | VStr string

type_synonym post = "string \<rightharpoonup> pyval"

type_synonym store = "post list"

datatype error = KeyError | TypeError | AttributeError | ValueError

definition seed_post1 :: post where
  "seed_post1 = [''id'' \<mapsto> VInt 1, ''title'' \<mapsto> VStr ''First post'',
                 ''content'' \<mapsto> VStr ''This is the first post.'']"

definition seed_post2 :: post where
  "seed_post2 = [''id'' \<mapsto> VInt 2, ''title'' \<mapsto> VStr ''Second post'',
                 ''content'' \<mapsto> VStr ''This is the second post.'']"

definition POSTS0 :: store where
  "POSTS0 = [seed_post1, seed_post2]"

section \<open>Id generation\<close>

text \<open>
  \<open>max(post["id"] for post in posts)\<close>: the generator is consumed lazily, so the lookup
  of a post's id (KeyError when the key is missing) and the comparison of that id with
  the running maximum (TypeError between an int and a str) happen post by post.
\<close>

fun max_loop :: "pyval \<Rightarrow> post list \<Rightarrow> error + pyval" where
  "max_loop m [] = Inr m"
| "max_loop m (p # ps) =
     (case p ''id'' of
        None \<Rightarrow> Inl KeyError
      | Some v \<Rightarrow>
          (case (v, m) of
             (VInt a, VInt b) \<Rightarrow> max_loop (if a > b then v else m) ps
           | (VStr a, VStr b) \<Rightarrow> max_loop (if a > b then v else m) ps
           | _ \<Rightarrow> Inl TypeError))"

fun max_ids :: "post list \<Rightarrow> error + pyval" where
  "max_ids [] = Inl ValueError"
| "max_ids (p # ps) =
     (case p ''id'' of None \<Rightarrow> Inl KeyError | Some v \<Rightarrow> max_loop v ps)"

text \<open>\<open>x + 1\<close>: defined on an int, TypeError on a str.\<close>

fun add_one :: "pyval \<Rightarrow> error + int" where
  "add_one (VInt n) = Inr (n + 1)"
| "add_one (VStr s) = Inl TypeError"

text \<open>
  \<open>get_next_id\<close>: 1 on the empty list; otherwise the maximum plus one, where the
  \<open>except (KeyError, TypeError)\<close> clause re-raises either error as a KeyError and lets
  any other error through (\<open>max\<close> of no items would be a ValueError, which the emptiness
  test excludes).
\<close>

fun reraise :: "error \<Rightarrow> error" where
  "reraise KeyError = KeyError"
| "reraise TypeError = KeyError"
| "reraise e = e"

definition get_next_id :: "post list \<Rightarrow> error + int" where
  "get_next_id posts =
     (if posts = [] then Inr 1
      else (case max_ids posts of
              Inl e \<Rightarrow> Inl (reraise e)
            | Inr m \<Rightarrow> (case add_one m of Inl e \<Rightarrow> Inl (reraise e) | Inr n \<Rightarrow> Inr n)))"

section \<open>Lookup and insertion\<close>

text \<open>
  \<open>get_blog_post_by_id\<close>: the first post whose \<open>post.get("id")\<close> equals the integer
  \<open>post_id\<close>; a missing id (\<open>None\<close>) and a string id are unequal to every integer.
\<close>

fun get_blog_post_by_id :: "int \<Rightarrow> store \<Rightarrow> post option" where
  "get_blog_post_by_id post_id [] = None"
| "get_blog_post_by_id post_id (post # rest) =
     (if post ''id'' = Some (VInt post_id) then Some post
      else get_blog_post_by_id post_id rest)"

text \<open>
  \<open>add_blog_post\<close>: the result is the raised error or the new post, together with the
  list afterwards (unchanged when \<open>get_next_id\<close> raises, since the append comes later).
\<close>

definition add_blog_post :: "pyval \<Rightarrow> pyval \<Rightarrow> store \<Rightarrow> (error + post) \<times> store" where
  "add_blog_post title content POSTS =
     (case get_next_id POSTS of
        Inl e \<Rightarrow> (Inl e, POSTS)
      | Inr i \<Rightarrow>
          (let post = [''id'' \<mapsto> VInt i, ''title'' \<mapsto> title, ''content'' \<mapsto> content]
           in (Inr post, POSTS @ [post])))"

text \<open>
  The dictionary that \<open>get_blog_post_by_id\<close> returns is the object stored in the list, at
  the first position whose id matches. An assignment to one of its keys therefore changes
  the list at that position; \<open>assign_by_id\<close> walks the list as the lookup does and
  replaces the dictionary found there.
\<close>

fun assign_by_id :: "int \<Rightarrow> post \<Rightarrow> store \<Rightarrow> store" where
  "assign_by_id post_id new [] = []"
| "assign_by_id post_id new (post # rest) =
     (if post ''id'' = Some (VInt post_id) then new # rest
      else post # assign_by_id post_id new rest)"

section \<open>Search\<close>

text \<open>
  \<open>str.lower()\<close> on code points below 256: the letters A to Z and the capital letters
  of Latin-1 (192 to 222, without the multiplication sign 215) move up by 32.
\<close>

definition lower_char :: "char \<Rightarrow> char" where
  "lower_char c =
     (let n = (of_char c :: nat)
      in if (65 \<le> n \<and> n \<le> 90) \<or> (192 \<le> n \<and> n \<le> 222 \<and> n \<noteq> 215)
         then char_of (n + 32) else c)"

definition lower :: "string \<Rightarrow> string" where
  "lower s = map lower_char s"

text \<open>\<open>a in b\<close> on strings: \<open>a\<close> occurs in \<open>b\<close> as a contiguous slice.\<close>

fun startswith :: "string \<Rightarrow> string \<Rightarrow> bool" where
  "startswith [] s = True"
| "startswith (a # as) [] = False"
| "startswith (a # as) (c # cs) = (a = c \<and> startswith as cs)"

fun str_in :: "string \<Rightarrow> string \<Rightarrow> bool" where
  "str_in a [] = (a = [])"
| "str_in a (c # cs) = (startswith a (c # cs) \<or> str_in a cs)"

text \<open>
  The list comprehension of \<open>find_str\<close>, post by post: \<open>post[search_key]\<close> raises
  KeyError on a missing key, \<open>.lower()\<close> raises AttributeError on an integer, and the
  first post that raises ends the comprehension.
\<close>

fun comprehension :: "string \<Rightarrow> string \<Rightarrow> post list \<Rightarrow> error + post list" where
  "comprehension search_str search_key [] = Inr []"
| "comprehension search_str search_key (post # rest) =
     (case post search_key of
        None \<Rightarrow> Inl KeyError
      | Some (VInt n) \<Rightarrow> Inl AttributeError
      | Some (VStr t) \<Rightarrow>
          (case comprehension search_str search_key rest of
             Inl e \<Rightarrow> Inl e
           | Inr found \<Rightarrow>
               Inr (if str_in (lower search_str) (lower t) then post # found else found)))"

definition find_str :: "string \<Rightarrow> string \<Rightarrow> store \<Rightarrow> error + post list" where
  "find_str search_str search_key POSTS =
     (if search_str = [] \<or> search_key = [] then Inr []
      else comprehension search_str search_key POSTS)"

definition find_in_title :: "string \<Rightarrow> store \<Rightarrow> error + post list" where
  "find_in_title title POSTS = find_str title ''title'' POSTS"

definition find_in_content :: "string \<Rightarrow> store \<Rightarrow> error + post list" where
  "find_in_content content POSTS = find_str content ''content'' POSTS"

section \<open>Sorting\<close>

text \<open>
  \<open>sorted(POSTS, key=lambda d: d[key], reverse=is_desc)\<close> builds a new list. It first
  computes every key (KeyError on a post without the key), then sorts by comparing keys:
  strings with strings and integers with integers; a list that mixes both makes some
  comparison raise TypeError. The sort is stable, and with \<open>reverse=True\<close> it reverses
  the list, sorts it upwards, and reverses the result, which keeps equal keys in their
  original order. The stored list is returned as it was. The source's name is
  \<open>sort_posts_by_\<close>; a constant's name cannot end in an underscore here.
\<close>

fun str_of :: "pyval option \<Rightarrow> string" where
  "str_of (Some (VStr s)) = s"
| "str_of v = []"

fun int_of :: "pyval option \<Rightarrow> int" where
  "int_of (Some (VInt n)) = n"
| "int_of v = 0"

fun is_str :: "pyval option \<Rightarrow> bool" where
  "is_str (Some (VStr s)) = True"
| "is_str v = False"

fun is_int :: "pyval option \<Rightarrow> bool" where
  "is_int (Some (VInt n)) = True"
| "is_int v = False"

definition stable_sort :: "('a \<Rightarrow> 'k::linorder) \<Rightarrow> bool \<Rightarrow> 'a list \<Rightarrow> 'a list" where
  "stable_sort f reverse xs = (if reverse then rev (sort_key f (rev xs)) else sort_key f xs)"

definition sorted_by :: "(post \<Rightarrow> pyval option) \<Rightarrow> bool \<Rightarrow> post list \<Rightarrow> error + post list" where
  "sorted_by keyf reverse xs =
     (if list_ex (\<lambda>d. keyf d = None) xs then Inl KeyError
      else if list_all (\<lambda>d. is_str (keyf d)) xs then Inr (stable_sort (\<lambda>d. str_of (keyf d)) reverse xs)
      else if list_all (\<lambda>d. is_int (keyf d)) xs then Inr (stable_sort (\<lambda>d. int_of (keyf d)) reverse xs)
      else Inl TypeError)"

definition sort_posts_by :: "string \<Rightarrow> bool \<Rightarrow> store \<Rightarrow> (error + post list) \<times> store" where
  "sort_posts_by key is_desc POSTS = (sorted_by (\<lambda>d. d key) is_desc POSTS, POSTS)"

section \<open>Request handlers\<close>

text \<open>
  A handler returns the pair \<open>(body, status)\<close> as the code does, or the error it raises,
  together with the list afterwards. A query parameter is \<open>None\<close> when the request does
  not carry it. \<open>jsonify\<close> of a list or of one post, a dictionary with a \<open>message\<close>, and
  the bare list of the search handler are kept apart.
\<close>

datatype body = Jsonify_posts "post list" | Jsonify_post post | Message string | Bare_list "post list"

type_synonym response = "body \<times> nat"

text \<open>Truth value of \<open>request.args.get(...)\<close>: false for \<open>None\<close> and for the empty string.\<close>

fun truthy :: "string option \<Rightarrow> bool" where
  "truthy None = False"
| "truthy (Some s) = (s \<noteq> [])"

definition get_posts :: "string option \<Rightarrow> string option \<Rightarrow> store \<Rightarrow> (error + response) \<times> store" where
  "get_posts sort' dir POSTS =
     (if truthy sort' \<and> truthy dir then
        (if (sort' = Some ''title'' \<or> sort' = Some ''content'') \<and>
            (dir = Some ''asc'' \<or> dir = Some ''desc'')
         then (case sort_posts_by (the sort') (dir = Some ''desc'') POSTS of
                 (Inl e, POSTS') \<Rightarrow> (Inl e, POSTS')
               | (Inr sorted_list, POSTS') \<Rightarrow> (Inr (Jsonify_posts sorted_list, 200), POSTS'))
         else (Inr (Message ''Wrong sort or direction value'', 400), POSTS))
      else (Inr (Jsonify_posts POSTS, 200), POSTS))"

text \<open>The decimal text that an f-string gives for an integer.\<close>

function digits :: "nat \<Rightarrow> string" where
  "digits n = (if n < 10 then [char_of (48 + n)] else digits (n div 10) @ [char_of (48 + n mod 10)])"
  by pat_completeness auto
termination
  by (relation "measure id") auto

declare digits.simps [simp del]

definition str_int :: "int \<Rightarrow> string" where
  "str_int i = (if i < 0 then CHR ''-'' # digits (nat (- i)) else digits (nat i))"

text \<open>
  \<open>delete_post\<close>: \<open>if post:\<close> holds for every dictionary the lookup returns, since it has
  the key \<open>id\<close>; \<open>POSTS.remove(post)\<close> removes the first element equal to it.
\<close>

definition delete_post :: "int \<Rightarrow> store \<Rightarrow> (error + response) \<times> store" where
  "delete_post post_id POSTS =
     (case get_blog_post_by_id post_id POSTS of
        Some post \<Rightarrow>
          (Inr (Message (''Post with id '' @ str_int post_id @ '' has been deleted successfully.''), 200),
           remove1 post POSTS)
      | None \<Rightarrow>
          (Inr (Message (''Post with id= '' @ str_int post_id @ '' not found''), 404), POSTS))"

text \<open>
  \<open>update_post\<close>: the JSON body is a dictionary; reading a key it lacks raises KeyError.
  The title is assigned before the content is read, so a body without \<open>content\<close> leaves
  the new title in the list.
\<close>

definition update_post :: "int \<Rightarrow> (string \<rightharpoonup> pyval) \<Rightarrow> store \<Rightarrow> (error + response) \<times> store" where
  "update_post post_id post_json POSTS =
     (case get_blog_post_by_id post_id POSTS of
        Some post \<Rightarrow>
          (case post_json ''title'' of
             None \<Rightarrow> (Inl KeyError, POSTS)
           | Some t \<Rightarrow>
               (let post1 = post(''title'' \<mapsto> t);
                    POSTS1 = assign_by_id post_id post1 POSTS
                in (case post_json ''content'' of
                      None \<Rightarrow> (Inl KeyError, POSTS1)
                    | Some c \<Rightarrow>
                        (let post2 = post1(''content'' \<mapsto> c);
                             POSTS2 = assign_by_id post_id post2 POSTS1
                         in (Inr (Jsonify_post post2, 200), POSTS2)))))
      | None \<Rightarrow>
          (Inr (Message (''Post with id= '' @ str_int post_id @ '' not found''), 404), POSTS))"

definition get_posts_search :: "string option \<Rightarrow> string option \<Rightarrow> store \<Rightarrow> (error + response) \<times> store" where
  "get_posts_search title content POSTS =
     (if truthy title then
        (case find_in_title (the title) POSTS of
           Inl e \<Rightarrow> (Inl e, POSTS)
         | Inr found \<Rightarrow> (Inr (Jsonify_posts found, 200), POSTS))
      else if truthy content then
        (case find_in_content (the content) POSTS of
           Inl e \<Rightarrow> (Inl e, POSTS)
         | Inr found \<Rightarrow> (Inr (Jsonify_posts found, 200), POSTS))
      else (Inr (Bare_list [], 404), POSTS))"

section \<open>Notions used in the statements\<close>

text \<open>A post whose id is an integer, and the integer ids of a list of posts, in order.\<close>

definition has_int_id :: "post \<Rightarrow> bool" where
  "has_int_id p = (case p ''id'' of Some (VInt n) \<Rightarrow> True | _ \<Rightarrow> False)"

definition int_ids :: "post list \<Rightarrow> int list" where
  "int_ids posts = concat (map (\<lambda>p. case p ''id'' of Some (VInt n) \<Rightarrow> [n] | _ \<Rightarrow> []) posts)"

text \<open>A post that has every field and whose id is a string.\<close>

definition string_id_post :: post where
  "string_id_post = [''id'' \<mapsto> VStr ''7'', ''title'' \<mapsto> VStr ''t'', ''content'' \<mapsto> VStr ''c'']"

text \<open>
  A sequence of calls of \<open>add_blog_post\<close>, one per pair of title and content, with nothing
  else in between: the posts returned, in order, or the first error raised (which ends
  the sequence), and the list afterwards.
\<close>

fun inserts :: "(pyval \<times> pyval) list \<Rightarrow> store \<Rightarrow> (error + post list) \<times> store" where
  "inserts [] POSTS = (Inr [], POSTS)"
| "inserts ((title, content) # more) POSTS =
     (case add_blog_post title content POSTS of
        (Inl e, POSTS') \<Rightarrow> (Inl e, POSTS')
      | (Inr post, POSTS') \<Rightarrow>
          (case inserts more POSTS' of
             (Inl e, POSTS'') \<Rightarrow> (Inl e, POSTS'')
           | (Inr posts, POSTS'') \<Rightarrow> (Inr (post # posts), POSTS'')))"

text \<open>
  The query occurs in the text when case is ignored: some contiguous slice of the text
  and the query have the same lower-case form.
\<close>

definition occurs_ignoring_case :: "string \<Rightarrow> string \<Rightarrow> bool" where
  "occurs_ignoring_case q t = (\<exists>as u bs. t = as @ u @ bs \<and> lower u = lower q)"

text \<open>A JSON body with a new title and a new content.\<close>

definition new_text :: "string \<rightharpoonup> pyval" where
  "new_text = [''title'' \<mapsto> VStr ''New title'', ''content'' \<mapsto> VStr ''New text'']"

text \<open>Three posts of which two share a title.\<close>

definition post_b :: post where
  "post_b = [''id'' \<mapsto> VInt 1, ''title'' \<mapsto> VStr ''b'', ''content'' \<mapsto> VStr ''x'']"

definition post_a1 :: post where
  "post_a1 = [''id'' \<mapsto> VInt 2, ''title'' \<mapsto> VStr ''a'', ''content'' \<mapsto> VStr ''y'']"

definition post_a2 :: post where
  "post_a2 = [''id'' \<mapsto> VInt 3, ''title'' \<mapsto> VStr ''a'', ''content'' \<mapsto> VStr ''z'']"

text \<open>
  The list \<open>r\<close> holds the elements of \<open>xs\<close>, ordered by the key \<open>f\<close> upwards or downwards,
  with the elements of equal key in the order they have in \<open>xs\<close>.
\<close>

definition sorted_stably :: "('a \<Rightarrow> 'k::linorder) \<Rightarrow> bool \<Rightarrow> 'a list \<Rightarrow> 'a list \<Rightarrow> bool" where
  "sorted_stably f descending xs r \<longleftrightarrow>
     mset r = mset xs \<and>
     (if descending then sorted_wrt (\<lambda>a b. f b \<le> f a) r else sorted_wrt (\<lambda>a b. f a \<le> f b) r) \<and>
     (\<forall>v. filter (\<lambda>x. f x = v) r = filter (\<lambda>x. f x = v) xs)"

text \<open>
  The seed data after \<open>add_blog_post\<close> with the integer title 5. This is what a POST
  with the body \<open>{"title": 5, "content": "x"}\<close> stores, since \<open>add_post\<close> passes the JSON
  values of the body on as they come.
\<close>

definition int_title_store :: store where
  "int_title_store = snd (add_blog_post (VInt 5) (VStr ''x'') POSTS0)"

text \<open>Two posts whose titles are the integers 10 and 9.\<close>

definition post_n10 :: post where
  "post_n10 = [''id'' \<mapsto> VInt 1, ''title'' \<mapsto> VInt 10, ''content'' \<mapsto> VStr ''x'']"

definition post_n9 :: post where
  "post_n9 = [''id'' \<mapsto> VInt 2, ''title'' \<mapsto> VInt 9, ''content'' \<mapsto> VStr ''y'']"

section \<open>Properties of id generation\<close>

lemma has_int_id_iff: "has_int_id p \<longleftrightarrow> (\<exists>n. p ''id'' = Some (VInt n))"
  by (auto simp: has_int_id_def split: option.splits pyval.splits)

lemma not_has_int_id_iff:
  "\<not> has_int_id p \<longleftrightarrow> p ''id'' = None \<or> (\<exists>s. p ''id'' = Some (VStr s))"
  by (auto simp: has_int_id_def split: option.splits pyval.splits)

lemma int_ids_Nil [simp]: "int_ids [] = []"
  by (simp add: int_ids_def)

lemma int_ids_Cons_int [simp]: "p ''id'' = Some (VInt n) \<Longrightarrow> int_ids (p # ps) = n # int_ids ps"
  by (simp add: int_ids_def)

lemma int_ids_append [simp]: "int_ids (xs @ ys) = int_ids xs @ int_ids ys"
  by (simp add: int_ids_def)

text \<open>Over integer ids the loop of \<open>max\<close> returns the greatest of them.\<close>

lemma max_loop_ints:
  "list_all has_int_id ps \<Longrightarrow>
   max_loop (VInt m) ps = Inr (VInt (Max (insert m (set (int_ids ps)))))"
proof (induction ps arbitrary: m)
  case Nil
  then show ?case by simp
next
  case (Cons p ps)
  from Cons.prems obtain n where n: "p ''id'' = Some (VInt n)" and rest: "list_all has_int_id ps"
    by (auto simp: has_int_id_iff [of p])
  have "max_loop (VInt m) (p # ps) = max_loop (VInt (max n m)) ps"
    using n by (simp add: max_def)
  also have "\<dots> = Inr (VInt (Max (insert (max n m) (set (int_ids ps)))))"
    by (rule Cons.IH [OF rest])
  also have "Max (insert (max n m) (set (int_ids ps))) = Max (insert m (set (int_ids (p # ps))))"
    using n by (cases "set (int_ids ps) = {}") (simp_all add: max.commute max.left_commute)
  finally show ?case .
qed

text \<open>A missing or string id met while the running maximum is an integer raises.\<close>

lemma max_loop_int_fails:
  "\<not> list_all has_int_id ps \<Longrightarrow> \<exists>e. max_loop (VInt m) ps = Inl e \<and> reraise e = KeyError"
proof (induction ps arbitrary: m)
  case Nil
  then show ?case by simp
next
  case (Cons p ps)
  show ?case
  proof (cases "p ''id''")
    case None
    then show ?thesis by simp
  next
    case (Some v)
    show ?thesis
    proof (cases v)
      case (VInt n)
      with Some Cons.prems have "\<not> list_all has_int_id ps"
        by (simp add: has_int_id_iff [of p])
      from Cons.IH [OF this] show ?thesis using Some VInt by simp
    next
      case (VStr s)
      with Some show ?thesis by simp
    qed
  qed
qed

text \<open>Once the running maximum is a string, the loop raises or ends with a string.\<close>

lemma max_loop_from_str:
  "\<exists>r. max_loop (VStr s) ps = r \<and>
     (case r of Inl e \<Rightarrow> reraise e = KeyError | Inr (VStr t) \<Rightarrow> True | Inr (VInt n) \<Rightarrow> False)"
proof (induction ps arbitrary: s)
  case Nil
  then show ?case by simp
next
  case (Cons p ps)
  show ?case
  proof (cases "p ''id''")
    case None
    then show ?thesis by simp
  next
    case (Some v)
    then show ?thesis using Cons.IH by (cases v) auto
  qed
qed

lemma get_next_id_ints:
  assumes "posts \<noteq> []" "list_all has_int_id posts"
  shows "get_next_id posts = Inr (Max (set (int_ids posts)) + 1)"
proof -
  from assms obtain p ps where ps: "posts = p # ps" by (cases posts) auto
  with assms obtain n where n: "p ''id'' = Some (VInt n)" and rest: "list_all has_int_id ps"
    by (auto simp: has_int_id_iff [of p])
  show ?thesis using n max_loop_ints [OF rest, of n] by (simp add: get_next_id_def ps)
qed

lemma get_next_id_invalid:
  assumes "\<not> list_all has_int_id posts"
  shows "get_next_id posts = Inl KeyError"
proof -
  from assms obtain p ps where ps: "posts = p # ps" by (cases posts) auto
  show ?thesis
  proof (cases "p ''id''")
    case None
    then show ?thesis by (simp add: get_next_id_def ps)
  next
    case (Some v)
    show ?thesis
    proof (cases v)
      case (VInt n)
      with Some assms ps have "\<not> list_all has_int_id ps"
        by (simp add: has_int_id_iff [of p])
      from max_loop_int_fails [OF this, of n] show ?thesis
        using Some VInt by (auto simp: get_next_id_def ps)
    next
      case (VStr s)
      from max_loop_from_str [of s ps] show ?thesis
        using Some VStr by (auto simp: get_next_id_def ps split: sum.splits pyval.splits)
    qed
  qed
qed

text \<open>
  Claim C4, as the code has it. \<open>get_next_id\<close> returns 1 on the empty list and the
  greatest id plus one when every post has an integer id. It raises exactly when some post
  has no id or has an id that is a string, and the error it raises is always the KeyError
  of its \<open>except\<close> clause.
\<close>

theorem get_next_id_result:
  "get_next_id [] = Inr 1 \<and>
   (posts \<noteq> [] \<and> list_all has_int_id posts \<longrightarrow>
      get_next_id posts = Inr (Max (set (int_ids posts)) + 1)) \<and>
   ((\<exists>e. get_next_id posts = Inl e) \<longleftrightarrow>
      (\<exists>p \<in> set posts. p ''id'' = None \<or> (\<exists>s. p ''id'' = Some (VStr s)))) \<and>
   (\<forall>e. get_next_id posts = Inl e \<longrightarrow> e = KeyError)"
proof -
  have empty: "get_next_id [] = Inr 1"
    by (simp add: get_next_id_def)
  have bad: "(\<not> list_all has_int_id posts) \<longleftrightarrow>
      (\<exists>p \<in> set posts. p ''id'' = None \<or> (\<exists>s. p ''id'' = Some (VStr s)))"
    by (simp add: list_all_iff not_has_int_id_iff)
  show ?thesis
  proof (cases "list_all has_int_id posts")
    case True
    have "\<exists>n. get_next_id posts = Inr n"
    proof (cases "posts = []")
      case True
      with empty show ?thesis by simp
    next
      case False
      from get_next_id_ints [OF False True] show ?thesis by simp
    qed
    with True bad empty show ?thesis
      using get_next_id_ints [of posts] by auto
  next
    case False
    from get_next_id_invalid [OF False] False bad empty show ?thesis by auto
  qed
qed

text \<open>On the seed data the next id is 3; with a string id in the list the call raises.\<close>

theorem get_next_id_result_witness:
  "get_next_id POSTS0 = Inr 3 \<and> get_next_id [seed_post1, string_id_post] = Inl KeyError"
proof -
  have h: "POSTS0 \<noteq> [] \<and> list_all has_int_id POSTS0"
    by (simp add: POSTS0_def has_int_id_def seed_post1_def seed_post2_def)
  have m: "Max (set (int_ids POSTS0)) = 2"
    by (simp add: POSTS0_def int_ids_def seed_post1_def seed_post2_def)
  have b: "\<exists>p \<in> set [seed_post1, string_id_post]. p ''id'' = None \<or> (\<exists>s. p ''id'' = Some (VStr s))"
    by (simp add: string_id_post_def)
  from get_next_id_result [of POSTS0] h m have 1: "get_next_id POSTS0 = Inr 3"
    by simp
  from get_next_id_result [of "[seed_post1, string_id_post]"] b
  have 2: "get_next_id [seed_post1, string_id_post] = Inl KeyError"
    by blast
  from 1 2 show ?thesis by simp
qed

text \<open>
  Claim C4 as stated fails: a list whose only post has the id \<open>"7"\<close> lacks no id field,
  and \<open>get_next_id\<close> raises on it (\<open>"7" + 1\<close> is a TypeError, re-raised as KeyError).
\<close>

theorem get_next_id_string_id_counterexample:
  "get_next_id [string_id_post] = Inl KeyError \<and> string_id_post ''id'' = Some (VStr ''7'')"
  by (simp add: get_next_id_def string_id_post_def)


section \<open>Properties of insertion\<close>

text \<open>The id that \<open>get_next_id\<close> returns is above every integer id in the list.\<close>

lemma get_next_id_fresh:
  assumes "list_all has_int_id POSTS"
  shows "\<exists>n. get_next_id POSTS = Inr n \<and> (\<forall>i \<in> set (int_ids POSTS). i < n)"
proof (cases "POSTS = []")
  case True
  then show ?thesis by (simp add: get_next_id_def)
next
  case False
  have "\<forall>i \<in> set (int_ids POSTS). i \<le> Max (set (int_ids POSTS))"
    by simp
  then have "\<forall>i \<in> set (int_ids POSTS). i < Max (set (int_ids POSTS)) + 1"
    by fastforce
  with get_next_id_ints [OF False assms] show ?thesis by simp
qed

lemma add_blog_post_fresh:
  assumes "list_all has_int_id POSTS"
  shows "\<exists>n. add_blog_post title content POSTS =
           (Inr [''id'' \<mapsto> VInt n, ''title'' \<mapsto> title, ''content'' \<mapsto> content],
            POSTS @ [[''id'' \<mapsto> VInt n, ''title'' \<mapsto> title, ''content'' \<mapsto> content]]) \<and>
         (\<forall>i \<in> set (int_ids POSTS). i < n)"
proof -
  from get_next_id_fresh [OF assms] obtain n
    where "get_next_id POSTS = Inr n" and "\<forall>i \<in> set (int_ids POSTS). i < n" by blast
  then show ?thesis by (auto simp: add_blog_post_def Let_def)
qed

lemma inserts_fresh:
  "list_all has_int_id POSTS \<Longrightarrow>
   \<exists>created. inserts reqs POSTS = (Inr created, POSTS @ created) \<and>
     length created = length reqs \<and> list_all has_int_id created \<and>
     sorted_wrt (<) (int_ids created) \<and>
     (\<forall>i \<in> set (int_ids POSTS). \<forall>j \<in> set (int_ids created). i < j)"
proof (induction reqs arbitrary: POSTS)
  case Nil
  then show ?case by simp
next
  case (Cons req more)
  obtain title content where req: "req = (title, content)" by (cases req)
  from add_blog_post_fresh [OF Cons.prems, of title content] obtain n
    where add: "add_blog_post title content POSTS =
           (Inr [''id'' \<mapsto> VInt n, ''title'' \<mapsto> title, ''content'' \<mapsto> content],
            POSTS @ [[''id'' \<mapsto> VInt n, ''title'' \<mapsto> title, ''content'' \<mapsto> content]])"
      and fresh: "\<forall>i \<in> set (int_ids POSTS). i < n" by blast
  define post where "post = [''id'' \<mapsto> VInt n, ''title'' \<mapsto> title, ''content'' \<mapsto> content]"
  have pid: "post ''id'' = Some (VInt n)" by (simp add: post_def)
  have hp: "has_int_id post" using pid by (simp add: has_int_id_iff)
  have ids1: "int_ids [post] = [n]" using pid by simp
  have "list_all has_int_id (POSTS @ [post])" using Cons.prems hp by simp
  from Cons.IH [OF this] obtain created
    where run: "inserts more (POSTS @ [post]) = (Inr created, (POSTS @ [post]) @ created)"
      and len: "length created = length more"
      and ints: "list_all has_int_id created"
      and inc: "sorted_wrt (<) (int_ids created)"
      and above: "\<forall>i \<in> set (int_ids (POSTS @ [post])). \<forall>j \<in> set (int_ids created). i < j"
    by blast
  have above_n: "\<forall>j \<in> set (int_ids created). n < j"
    using above ids1 by simp
  have above_old: "\<forall>i \<in> set (int_ids POSTS). \<forall>j \<in> set (int_ids created). i < j"
    using above by simp
  have idsc: "int_ids (post # created) = n # int_ids created" using pid by simp
  have "inserts (req # more) POSTS = (Inr (post # created), POSTS @ post # created)"
    using add run by (simp add: req post_def)
  moreover have "length (post # created) = length (req # more)" using len by simp
  moreover have "list_all has_int_id (post # created)" using hp ints by simp
  moreover have "sorted_wrt (<) (int_ids (post # created))"
    using inc above_n by (simp add: idsc)
  moreover have "\<forall>i \<in> set (int_ids POSTS). \<forall>j \<in> set (int_ids (post # created)). i < j"
    using fresh above_old by (simp add: idsc)
  ultimately show ?case by blast
qed

lemma inserts_invalid:
  "\<not> list_all has_int_id POSTS \<Longrightarrow> reqs \<noteq> [] \<Longrightarrow> inserts reqs POSTS = (Inl KeyError, POSTS)"
  by (cases reqs) (auto simp: add_blog_post_def get_next_id_invalid)

text \<open>
  Claim C1. From a list in which every post has an integer id, any sequence of calls of
  \<open>add_blog_post\<close> succeeds and appends the posts it returns; the ids returned are
  strictly increasing, each is greater than every id stored before, and ids that were
  pairwise different stay so. From any other list the first call raises and the list is
  left as it was, so no id is returned at all.
\<close>

theorem inserts_ids_increasing_unique:
  "(list_all has_int_id POSTS \<longrightarrow>
      (\<exists>created. inserts reqs POSTS = (Inr created, POSTS @ created) \<and>
         length created = length reqs \<and> list_all has_int_id created \<and>
         sorted_wrt (<) (int_ids created) \<and>
         (\<forall>i \<in> set (int_ids POSTS). \<forall>j \<in> set (int_ids created). i < j) \<and>
         (distinct (int_ids POSTS) \<longrightarrow> distinct (int_ids (POSTS @ created))))) \<and>
   (\<not> list_all has_int_id POSTS \<and> reqs \<noteq> [] \<longrightarrow> inserts reqs POSTS = (Inl KeyError, POSTS))"
proof -
  have "\<exists>created. inserts reqs POSTS = (Inr created, POSTS @ created) \<and>
         length created = length reqs \<and> list_all has_int_id created \<and>
         sorted_wrt (<) (int_ids created) \<and>
         (\<forall>i \<in> set (int_ids POSTS). \<forall>j \<in> set (int_ids created). i < j) \<and>
         (distinct (int_ids POSTS) \<longrightarrow> distinct (int_ids (POSTS @ created)))"
    if ok: "list_all has_int_id POSTS"
  proof -
    from inserts_fresh [OF ok, of reqs] obtain created
      where run: "inserts reqs POSTS = (Inr created, POSTS @ created)"
        and len: "length created = length reqs"
        and ints: "list_all has_int_id created"
        and inc: "sorted_wrt (<) (int_ids created)"
        and above: "\<forall>i \<in> set (int_ids POSTS). \<forall>j \<in> set (int_ids created). i < j"
      by blast
    have dc: "distinct (int_ids created)"
      using inc strict_sorted_iff by blast
    have disj: "set (int_ids POSTS) \<inter> set (int_ids created) = {}"
      using above by fastforce
    have "distinct (int_ids POSTS) \<longrightarrow> distinct (int_ids (POSTS @ created))"
      using dc disj by simp
    with run len ints inc above show ?thesis by blast
  qed
  with inserts_invalid [of POSTS reqs] show ?thesis by blast
qed

text \<open>Two inserts into the seed data return the ids 3 and 4.\<close>

theorem inserts_ids_increasing_unique_witness:
  "list_all has_int_id POSTS0 \<and> distinct (int_ids POSTS0) \<and>
   int_ids (snd (inserts [(VStr ''A'', VStr ''B''), (VStr ''C'', VStr ''D'')] POSTS0)) = [1, 2, 3, 4] \<and>
   distinct (int_ids (snd (inserts [(VStr ''A'', VStr ''B''), (VStr ''C'', VStr ''D'')] POSTS0))) \<and>
   inserts [(VStr ''A'', VStr ''B'')] [string_id_post] = (Inl KeyError, [string_id_post])"
proof -
  let ?reqs = "[(VStr ''A'', VStr ''B''), (VStr ''C'', VStr ''D'')]"
  have h: "list_all has_int_id POSTS0"
    by (simp add: POSTS0_def has_int_id_def seed_post1_def seed_post2_def)
  have d: "distinct (int_ids POSTS0)"
    by (simp add: POSTS0_def int_ids_def seed_post1_def seed_post2_def)
  from inserts_ids_increasing_unique [of POSTS0 ?reqs] h d obtain created
    where "inserts ?reqs POSTS0 = (Inr created, POSTS0 @ created)"
      and "distinct (int_ids (POSTS0 @ created))" by blast
  then have u: "distinct (int_ids (snd (inserts ?reqs POSTS0)))" by simp
  have e: "int_ids (snd (inserts ?reqs POSTS0)) = [1, 2, 3, 4]"
    by (simp add: POSTS0_def int_ids_def seed_post1_def seed_post2_def add_blog_post_def
        get_next_id_def Let_def)
  have n: "\<not> list_all has_int_id [string_id_post]"
    by (simp add: has_int_id_def string_id_post_def)
  from inserts_ids_increasing_unique [of "[string_id_post]" "[(VStr ''A'', VStr ''B'')]"] n
  have f: "inserts [(VStr ''A'', VStr ''B'')] [string_id_post] = (Inl KeyError, [string_id_post])"
    by simp
  from h d e u f show ?thesis by simp
qed

section \<open>Properties of lookup, update and deletion\<close>

lemma get_blog_post_by_id_None:
  "get_blog_post_by_id post_id POSTS = None \<longleftrightarrow>
   (\<forall>p \<in> set POSTS. p ''id'' \<noteq> Some (VInt post_id))"
  by (induction POSTS) auto

text \<open>
  When some post has the id, the lookup returns the post at the first such position, an
  assignment through the returned dictionary changes the list there, and removing the
  returned dictionary removes that position.
\<close>

lemma first_with_id:
  "\<exists>p \<in> set POSTS. p ''id'' = Some (VInt post_id) \<Longrightarrow>
   \<exists>k<length POSTS. (POSTS ! k) ''id'' = Some (VInt post_id) \<and>
      (\<forall>j<k. (POSTS ! j) ''id'' \<noteq> Some (VInt post_id)) \<and>
      get_blog_post_by_id post_id POSTS = Some (POSTS ! k) \<and>
      (\<forall>new. assign_by_id post_id new POSTS = POSTS[k := new]) \<and>
      remove1 (POSTS ! k) POSTS = take k POSTS @ drop (Suc k) POSTS"
proof (induction POSTS)
  case Nil
  then show ?case by simp
next
  case (Cons post rest)
  show ?case
  proof (cases "post ''id'' = Some (VInt post_id)")
    case True
    then have "((post # rest) ! 0) ''id'' = Some (VInt post_id) \<and>
      (\<forall>j<0. ((post # rest) ! j) ''id'' \<noteq> Some (VInt post_id)) \<and>
      get_blog_post_by_id post_id (post # rest) = Some ((post # rest) ! 0) \<and>
      (\<forall>new. assign_by_id post_id new (post # rest) = (post # rest)[0 := new]) \<and>
      remove1 ((post # rest) ! 0) (post # rest) = take 0 (post # rest) @ drop (Suc 0) (post # rest)"
      by simp
    then show ?thesis by (intro exI [of _ 0]) simp
  next
    case False
    with Cons.prems have "\<exists>p \<in> set rest. p ''id'' = Some (VInt post_id)" by auto
    from Cons.IH [OF this] obtain k where k: "k < length rest"
      and hit: "(rest ! k) ''id'' = Some (VInt post_id)"
      and first: "\<forall>j<k. (rest ! j) ''id'' \<noteq> Some (VInt post_id)"
      and get: "get_blog_post_by_id post_id rest = Some (rest ! k)"
      and asg: "\<forall>new. assign_by_id post_id new rest = rest[k := new]"
      and rem: "remove1 (rest ! k) rest = take k rest @ drop (Suc k) rest"
      by blast
    have neq: "rest ! k \<noteq> post" using hit False by auto
    have first': "\<forall>j<Suc k. ((post # rest) ! j) ''id'' \<noteq> Some (VInt post_id)"
      using first False by (auto simp: less_Suc_eq_0_disj)
    have "Suc k < length (post # rest) \<and>
      ((post # rest) ! Suc k) ''id'' = Some (VInt post_id) \<and>
      (\<forall>j<Suc k. ((post # rest) ! j) ''id'' \<noteq> Some (VInt post_id)) \<and>
      get_blog_post_by_id post_id (post # rest) = Some ((post # rest) ! Suc k) \<and>
      (\<forall>new. assign_by_id post_id new (post # rest) = (post # rest)[Suc k := new]) \<and>
      remove1 ((post # rest) ! Suc k) (post # rest) =
        take (Suc k) (post # rest) @ drop (Suc (Suc k)) (post # rest)"
      using k hit first' get asg rem neq False by simp
    then show ?thesis by blast
  qed
qed

text \<open>
  A dictionary that the lookup returns has the key \<open>id\<close>, so it is not empty and the
  tests \<open>if post:\<close> of the handlers hold for it.
\<close>

lemma get_blog_post_by_id_has_id:
  "get_blog_post_by_id post_id POSTS = Some post \<Longrightarrow>
   post ''id'' = Some (VInt post_id) \<and> post \<noteq> Map.empty"
  by (induction POSTS) (auto split: if_splits)

lemma assign_by_id_twice:
  "new1 ''id'' = Some (VInt post_id) \<Longrightarrow>
   assign_by_id post_id new2 (assign_by_id post_id new1 POSTS) = assign_by_id post_id new2 POSTS"
  by (induction POSTS) auto

lemma update_post_found:
  assumes "\<exists>p \<in> set POSTS. p ''id'' = Some (VInt post_id)"
    and "post_json ''title'' = Some t" and "post_json ''content'' = Some c"
  shows "\<exists>k<length POSTS. (POSTS ! k) ''id'' = Some (VInt post_id) \<and>
      (\<forall>j<k. (POSTS ! j) ''id'' \<noteq> Some (VInt post_id)) \<and>
      update_post post_id post_json POSTS =
        (Inr (Jsonify_post ((POSTS ! k)(''title'' \<mapsto> t, ''content'' \<mapsto> c)), 200),
         POSTS[k := (POSTS ! k)(''title'' \<mapsto> t, ''content'' \<mapsto> c)])"
proof -
  from first_with_id [OF assms(1)] obtain k where k: "k < length POSTS"
    and hit: "(POSTS ! k) ''id'' = Some (VInt post_id)"
    and first: "\<forall>j<k. (POSTS ! j) ''id'' \<noteq> Some (VInt post_id)"
    and get: "get_blog_post_by_id post_id POSTS = Some (POSTS ! k)"
    and asg: "\<forall>new. assign_by_id post_id new POSTS = POSTS[k := new]"
    by blast
  have keep: "((POSTS ! k)(''title'' \<mapsto> t)) ''id'' = Some (VInt post_id)"
    using hit by simp
  have twice: "assign_by_id post_id new2 (assign_by_id post_id ((POSTS ! k)(''title'' \<mapsto> t)) POSTS) =
      assign_by_id post_id new2 POSTS" for new2
    using keep by (rule assign_by_id_twice)
  have "update_post post_id post_json POSTS =
        (Inr (Jsonify_post ((POSTS ! k)(''title'' \<mapsto> t, ''content'' \<mapsto> c)), 200),
         POSTS[k := (POSTS ! k)(''title'' \<mapsto> t, ''content'' \<mapsto> c)])"
    using get assms(2,3) asg twice by (simp add: update_post_def Let_def)
  with k hit first show ?thesis by blast
qed

text \<open>
  Claim C5. \<open>update_post\<close> on an id that no post has answers 404 with the not-found
  message and leaves the list as it was. On an id that some post has, with a body that
  carries \<open>title\<close> and \<open>content\<close>, it answers 200 with the post at the first position
  of that id, in which exactly the title and the content are replaced: the id and every
  other key of that post, every other position, and the length and order of the list are
  as before.
\<close>

theorem update_post_frame:
  "((\<forall>p \<in> set POSTS. p ''id'' \<noteq> Some (VInt post_id)) \<longrightarrow>
      update_post post_id post_json POSTS =
        (Inr (Message (''Post with id= '' @ str_int post_id @ '' not found''), 404), POSTS)) \<and>
   ((\<exists>p \<in> set POSTS. p ''id'' = Some (VInt post_id)) \<and>
    post_json ''title'' = Some t \<and> post_json ''content'' = Some c \<longrightarrow>
      (\<exists>k<length POSTS. (POSTS ! k) ''id'' = Some (VInt post_id) \<and>
         (\<forall>j<k. (POSTS ! j) ''id'' \<noteq> Some (VInt post_id)) \<and>
         update_post post_id post_json POSTS =
           (Inr (Jsonify_post ((POSTS ! k)(''title'' \<mapsto> t, ''content'' \<mapsto> c)), 200),
            POSTS[k := (POSTS ! k)(''title'' \<mapsto> t, ''content'' \<mapsto> c)]) \<and>
         length (snd (update_post post_id post_json POSTS)) = length POSTS \<and>
         (\<forall>j<length POSTS. j \<noteq> k \<longrightarrow> snd (update_post post_id post_json POSTS) ! j = POSTS ! j) \<and>
         (snd (update_post post_id post_json POSTS) ! k) ''id'' = Some (VInt post_id) \<and>
         (snd (update_post post_id post_json POSTS) ! k) ''title'' = Some t \<and>
         (snd (update_post post_id post_json POSTS) ! k) ''content'' = Some c \<and>
         (\<forall>key. key \<noteq> ''title'' \<and> key \<noteq> ''content'' \<longrightarrow>
            (snd (update_post post_id post_json POSTS) ! k) key = (POSTS ! k) key)))"
  (is "(?absent \<longrightarrow> ?unchanged) \<and> (?present \<longrightarrow> (\<exists>k. ?updated k))")
proof (intro conjI impI)
  assume ?absent
  then show ?unchanged
    using get_blog_post_by_id_None [of post_id POSTS] by (simp add: update_post_def)
next
  assume ?present
  then have ex: "\<exists>p \<in> set POSTS. p ''id'' = Some (VInt post_id)"
    and tc: "post_json ''title'' = Some t" "post_json ''content'' = Some c"
    by simp_all
  from update_post_found [OF ex tc] obtain k where k: "k < length POSTS"
    and hit: "(POSTS ! k) ''id'' = Some (VInt post_id)"
    and first: "\<forall>j<k. (POSTS ! j) ''id'' \<noteq> Some (VInt post_id)"
    and upd: "update_post post_id post_json POSTS =
           (Inr (Jsonify_post ((POSTS ! k)(''title'' \<mapsto> t, ''content'' \<mapsto> c)), 200),
            POSTS[k := (POSTS ! k)(''title'' \<mapsto> t, ''content'' \<mapsto> c)])"
    by (elim exE conjE)
  have rest: "length (snd (update_post post_id post_json POSTS)) = length POSTS"
    "\<forall>j<length POSTS. j \<noteq> k \<longrightarrow> snd (update_post post_id post_json POSTS) ! j = POSTS ! j"
    "(snd (update_post post_id post_json POSTS) ! k) ''id'' = Some (VInt post_id)"
    "(snd (update_post post_id post_json POSTS) ! k) ''title'' = Some t"
    "(snd (update_post post_id post_json POSTS) ! k) ''content'' = Some c"
    "\<forall>key. key \<noteq> ''title'' \<and> key \<noteq> ''content'' \<longrightarrow>
       (snd (update_post post_id post_json POSTS) ! k) key = (POSTS ! k) key"
    using k hit unfolding upd by simp_all
  have "?updated k"
    by (intro conjI) (fact k, fact hit, fact first, fact upd, fact rest(1), fact rest(2),
      fact rest(3), fact rest(4), fact rest(5), fact rest(6))
  then show "\<exists>k. ?updated k" by (rule exI [of ?updated k])
qed

text \<open>Updating id 2 of the seed data changes the second post only; id 105 is not found.\<close>

theorem update_post_frame_witness:
  "update_post 105 new_text POSTS0 =
     (Inr (Message ''Post with id= 105 not found'', 404), POSTS0) \<and>
   update_post 2 new_text POSTS0 =
     (Inr (Jsonify_post (seed_post2(''title'' \<mapsto> VStr ''New title'', ''content'' \<mapsto> VStr ''New text'')), 200),
      [seed_post1, seed_post2(''title'' \<mapsto> VStr ''New title'', ''content'' \<mapsto> VStr ''New text'')])"
proof -
  have s: "str_int 105 = ''105''" by code_simp
  have a: "\<forall>p \<in> set POSTS0. p ''id'' \<noteq> Some (VInt 105)"
    by (simp add: POSTS0_def seed_post1_def seed_post2_def)
  have b: "(\<exists>p \<in> set POSTS0. p ''id'' = Some (VInt 2)) \<and>
      new_text ''title'' = Some (VStr ''New title'') \<and> new_text ''content'' = Some (VStr ''New text'')"
    by (simp add: POSTS0_def seed_post1_def seed_post2_def new_text_def)
  note thm105 = update_post_frame [of POSTS0 105 new_text "VStr ''New title''" "VStr ''New text''"]
  note thm2 = update_post_frame [of POSTS0 2 new_text "VStr ''New title''" "VStr ''New text''"]
  from thm105 [THEN conjunct1, THEN mp, OF a]
  have 1: "update_post 105 new_text POSTS0 =
     (Inr (Message ''Post with id= 105 not found'', 404), POSTS0)" by (simp add: s)
  from thm2 [THEN conjunct2, THEN mp, OF b]
  obtain k where k: "k < length POSTS0" and hit: "(POSTS0 ! k) ''id'' = Some (VInt 2)"
    and upd: "update_post 2 new_text POSTS0 =
           (Inr (Jsonify_post ((POSTS0 ! k)(''title'' \<mapsto> VStr ''New title'', ''content'' \<mapsto> VStr ''New text'')), 200),
            POSTS0[k := (POSTS0 ! k)(''title'' \<mapsto> VStr ''New title'', ''content'' \<mapsto> VStr ''New text'')])"
    by (elim exE conjE)
  from k have "k = 0 \<or> k = 1" by (auto simp: POSTS0_def)
  moreover have "(POSTS0 ! 0) ''id'' \<noteq> Some (VInt 2)" by (simp add: POSTS0_def seed_post1_def)
  ultimately have "k = 1" using hit by auto
  with upd have 2: "update_post 2 new_text POSTS0 =
     (Inr (Jsonify_post (seed_post2(''title'' \<mapsto> VStr ''New title'', ''content'' \<mapsto> VStr ''New text'')), 200),
      [seed_post1, seed_post2(''title'' \<mapsto> VStr ''New title'', ''content'' \<mapsto> VStr ''New text'')])"
    by (simp add: POSTS0_def)
  from 1 2 show ?thesis by (rule conjI)
qed

lemma distinct_ids_removed:
  assumes k: "k < length POSTS" and d: "distinct (map (\<lambda>p. p ''id'') POSTS)"
    and p: "p \<in> set (take k POSTS @ drop (Suc k) POSTS)"
  shows "p ''id'' \<noteq> (POSTS ! k) ''id''"
proof -
  have split: "POSTS = take k POSTS @ POSTS ! k # drop (Suc k) POSTS"
    using k by (simp add: id_take_nth_drop)
  have "distinct (map (\<lambda>p. p ''id'') (take k POSTS @ POSTS ! k # drop (Suc k) POSTS))"
    using d split by simp
  then have "(POSTS ! k) ''id'' \<notin> (\<lambda>p. p ''id'') ` set (take k POSTS) \<and>
             (POSTS ! k) ''id'' \<notin> (\<lambda>p. p ''id'') ` set (drop (Suc k) POSTS)"
    by auto
  with p show ?thesis by (metis Un_iff image_eqI set_append)
qed

text \<open>
  Claim C6. \<open>delete_post\<close> on an id that no post has answers 404 with the not-found
  message and leaves the list as it was. On an id that some post has it answers 200 with
  the success message and removes the post at the first position of that id, keeping the
  others in order; when the stored ids are pairwise different, no post with that id is
  left.
\<close>

theorem delete_post_result:
  "((\<forall>p \<in> set POSTS. p ''id'' \<noteq> Some (VInt post_id)) \<longrightarrow>
      delete_post post_id POSTS =
        (Inr (Message (''Post with id= '' @ str_int post_id @ '' not found''), 404), POSTS)) \<and>
   ((\<exists>p \<in> set POSTS. p ''id'' = Some (VInt post_id)) \<longrightarrow>
      (\<exists>k<length POSTS. (POSTS ! k) ''id'' = Some (VInt post_id) \<and>
         (\<forall>j<k. (POSTS ! j) ''id'' \<noteq> Some (VInt post_id)) \<and>
         delete_post post_id POSTS =
           (Inr (Message (''Post with id '' @ str_int post_id @ '' has been deleted successfully.''), 200),
            take k POSTS @ drop (Suc k) POSTS) \<and>
         Suc (length (snd (delete_post post_id POSTS))) = length POSTS \<and>
         (distinct (map (\<lambda>p. p ''id'') POSTS) \<longrightarrow>
            (\<forall>p \<in> set (snd (delete_post post_id POSTS)). p ''id'' \<noteq> Some (VInt post_id)))))"
  (is "(?absent \<longrightarrow> ?unchanged) \<and> (?present \<longrightarrow> (\<exists>k. ?deleted k))")
proof (intro conjI impI)
  assume ?absent
  then show ?unchanged
    using get_blog_post_by_id_None [of post_id POSTS] by (simp add: delete_post_def)
next
  assume ?present
  from first_with_id [OF this] obtain k where k: "k < length POSTS"
    and hit: "(POSTS ! k) ''id'' = Some (VInt post_id)"
    and first: "\<forall>j<k. (POSTS ! j) ''id'' \<noteq> Some (VInt post_id)"
    and get: "get_blog_post_by_id post_id POSTS = Some (POSTS ! k)"
    and rem: "remove1 (POSTS ! k) POSTS = take k POSTS @ drop (Suc k) POSTS"
    by (elim exE conjE)
  have del: "delete_post post_id POSTS =
           (Inr (Message (''Post with id '' @ str_int post_id @ '' has been deleted successfully.''), 200),
            take k POSTS @ drop (Suc k) POSTS)"
    using get rem by (simp add: delete_post_def)
  have len: "Suc (length (snd (delete_post post_id POSTS))) = length POSTS"
    using k unfolding del by simp
  have gone: "distinct (map (\<lambda>p. p ''id'') POSTS) \<longrightarrow>
            (\<forall>p \<in> set (snd (delete_post post_id POSTS)). p ''id'' \<noteq> Some (VInt post_id))"
    unfolding del using distinct_ids_removed [OF k] hit by auto
  have "?deleted k"
    by (intro conjI) (fact k, fact hit, fact first, fact del, fact len, fact gone)
  then show "\<exists>k. ?deleted k" by (rule exI [of ?deleted k])
qed

text \<open>Deleting id 2 from the seed data leaves the first post; id 105 is not found.\<close>

theorem delete_post_result_witness:
  "delete_post 105 POSTS0 =
     (Inr (Message ''Post with id= 105 not found'', 404), POSTS0) \<and>
   delete_post 2 POSTS0 =
     (Inr (Message ''Post with id 2 has been deleted successfully.'', 200), [seed_post1])"
proof -
  have s: "str_int 105 = ''105''" "str_int 2 = ''2''" by code_simp+
  have a: "\<forall>p \<in> set POSTS0. p ''id'' \<noteq> Some (VInt 105)"
    by (simp add: POSTS0_def seed_post1_def seed_post2_def)
  have b: "\<exists>p \<in> set POSTS0. p ''id'' = Some (VInt 2)"
    by (simp add: POSTS0_def seed_post1_def seed_post2_def)
  from delete_post_result [of POSTS0 105, THEN conjunct1, THEN mp, OF a]
  have 1: "delete_post 105 POSTS0 =
     (Inr (Message ''Post with id= 105 not found'', 404), POSTS0)" by (simp add: s)
  from delete_post_result [of POSTS0 2, THEN conjunct2, THEN mp, OF b]
  obtain k where k: "k < length POSTS0" and hit: "(POSTS0 ! k) ''id'' = Some (VInt 2)"
    and del: "delete_post 2 POSTS0 =
           (Inr (Message (''Post with id '' @ str_int 2 @ '' has been deleted successfully.''), 200),
            take k POSTS0 @ drop (Suc k) POSTS0)"
    by (elim exE conjE)
  from k have "k = 0 \<or> k = 1" by (auto simp: POSTS0_def)
  moreover have "(POSTS0 ! 0) ''id'' \<noteq> Some (VInt 2)" by (simp add: POSTS0_def seed_post1_def)
  ultimately have "k = 1" using hit by auto
  with del have 2: "delete_post 2 POSTS0 =
     (Inr (Message ''Post with id 2 has been deleted successfully.'', 200), [seed_post1])"
    by (simp add: POSTS0_def s)
  from 1 2 show ?thesis by (rule conjI)
qed

section \<open>Properties of search\<close>

lemma startswith_iff: "startswith a s \<longleftrightarrow> (\<exists>bs. s = a @ bs)"
  by (induction a s rule: startswith.induct) auto

lemma str_in_iff: "str_in a s \<longleftrightarrow> (\<exists>as bs. s = as @ a @ bs)"
proof (induction s)
  case Nil
  then show ?case by simp
next
  case (Cons c cs)
  show ?case
  proof
    assume "str_in a (c # cs)"
    then consider "startswith a (c # cs)" | "str_in a cs" by auto
    then show "\<exists>as bs. c # cs = as @ a @ bs"
    proof cases
      case 1
      then obtain bs where "c # cs = a @ bs" by (auto simp: startswith_iff)
      then have "c # cs = [] @ a @ bs" by simp
      then show ?thesis by blast
    next
      case 2
      with Cons.IH obtain as bs where "cs = as @ a @ bs" by blast
      then have "c # cs = (c # as) @ a @ bs" by simp
      then show ?thesis by blast
    qed
  next
    assume "\<exists>as bs. c # cs = as @ a @ bs"
    then obtain as bs where eq: "c # cs = as @ a @ bs" by blast
    show "str_in a (c # cs)"
    proof (cases as)
      case Nil
      with eq have "startswith a (c # cs)" by (auto simp: startswith_iff)
      then show ?thesis by simp
    next
      case (Cons x xs)
      with eq have "cs = xs @ a @ bs" by simp
      with Cons.IH have "str_in a cs" by blast
      then show ?thesis by simp
    qed
  qed
qed

text \<open>The test of \<open>find_str\<close> is the case-insensitive occurrence of the query.\<close>

lemma occurs_ignoring_case_iff:
  "occurs_ignoring_case q t \<longleftrightarrow> str_in (lower q) (lower t)"
proof
  assume "occurs_ignoring_case q t"
  then obtain as u bs where "t = as @ u @ bs" and "lower u = lower q"
    by (auto simp: occurs_ignoring_case_def)
  then have "lower t = lower as @ lower q @ lower bs"
    by (simp add: lower_def)
  then show "str_in (lower q) (lower t)"
    unfolding str_in_iff by blast
next
  assume "str_in (lower q) (lower t)"
  then obtain xs ys where "map lower_char t = xs @ lower q @ ys"
    unfolding str_in_iff lower_def by blast
  then obtain as rest where t: "t = as @ rest" and "map lower_char rest = lower q @ ys"
    by (metis map_eq_append_conv)
  then obtain u bs where rest: "rest = u @ bs" and "map lower_char u = lower q"
    by (metis map_eq_append_conv)
  then have "t = as @ u @ bs \<and> lower u = lower q"
    using t by (simp add: lower_def)
  then show "occurs_ignoring_case q t"
    unfolding occurs_ignoring_case_def by blast
qed

lemma comprehension_strings:
  "list_all (\<lambda>p. is_str (p search_key)) POSTS \<Longrightarrow>
   comprehension search_str search_key POSTS =
     Inr (filter (\<lambda>p. occurs_ignoring_case search_str (str_of (p search_key))) POSTS)"
proof (induction POSTS)
  case Nil
  then show ?case by simp
next
  case (Cons post rest)
  from Cons.prems obtain t where t: "post search_key = Some (VStr t)"
    by (cases "post search_key" rule: is_str.cases) auto
  from Cons.prems have "list_all (\<lambda>p. is_str (p search_key)) rest" by simp
  from Cons.IH [OF this] show ?case
    using t by (simp add: occurs_ignoring_case_iff)
qed

lemma comprehension_raises:
  "\<not> list_all (\<lambda>p. is_str (p search_key)) POSTS \<Longrightarrow>
   comprehension search_str search_key POSTS = Inl KeyError \<or>
   comprehension search_str search_key POSTS = Inl AttributeError"
proof (induction POSTS)
  case Nil
  then show ?case by simp
next
  case (Cons post rest)
  show ?case
  proof (cases "post search_key")
    case None
    then show ?thesis by simp
  next
    case (Some v)
    show ?thesis
    proof (cases v)
      case (VInt n)
      with Some show ?thesis by simp
    next
      case (VStr s)
      with Some Cons.prems have "\<not> list_all (\<lambda>p. is_str (p search_key)) rest" by simp
      from Cons.IH [OF this] show ?thesis using Some VStr by auto
    qed
  qed
qed

lemma find_str_strings:
  "search_str \<noteq> [] \<Longrightarrow> search_key \<noteq> [] \<Longrightarrow>
   list_all (\<lambda>p. is_str (p search_key)) POSTS \<Longrightarrow>
   find_str search_str search_key POSTS =
     Inr (filter (\<lambda>p. occurs_ignoring_case search_str (str_of (p search_key))) POSTS)"
  by (simp add: find_str_def comprehension_strings)

text \<open>
  Claim C2, as the code has it. \<open>find_str\<close> returns the empty list when the query or
  the field name is empty. With both non-empty it returns, in stored order, exactly the
  posts whose value under the field contains the query when case is ignored, provided
  every post holds a string under that field; otherwise (some post lacks the field or
  holds an integer there) it raises KeyError or AttributeError.
\<close>

theorem find_str_result:
  "(search_str = [] \<or> search_key = [] \<longrightarrow> find_str search_str search_key POSTS = Inr []) \<and>
   (search_str \<noteq> [] \<and> search_key \<noteq> [] \<and> list_all (\<lambda>p. is_str (p search_key)) POSTS \<longrightarrow>
      find_str search_str search_key POSTS =
        Inr (filter (\<lambda>p. occurs_ignoring_case search_str (str_of (p search_key))) POSTS)) \<and>
   (search_str \<noteq> [] \<and> search_key \<noteq> [] \<and> \<not> list_all (\<lambda>p. is_str (p search_key)) POSTS \<longrightarrow>
      find_str search_str search_key POSTS = Inl KeyError \<or>
      find_str search_str search_key POSTS = Inl AttributeError)"
proof (intro conjI impI)
  assume "search_str = [] \<or> search_key = []"
  then show "find_str search_str search_key POSTS = Inr []"
    by (auto simp: find_str_def)
next
  assume "search_str \<noteq> [] \<and> search_key \<noteq> [] \<and> list_all (\<lambda>p. is_str (p search_key)) POSTS"
  then show "find_str search_str search_key POSTS =
        Inr (filter (\<lambda>p. occurs_ignoring_case search_str (str_of (p search_key))) POSTS)"
    by (simp add: find_str_strings)
next
  assume a: "search_str \<noteq> [] \<and> search_key \<noteq> [] \<and> \<not> list_all (\<lambda>p. is_str (p search_key)) POSTS"
  then have "\<not> list_all (\<lambda>p. is_str (p search_key)) POSTS" by simp
  from comprehension_raises [OF this, of search_str] a
  show "find_str search_str search_key POSTS = Inl KeyError \<or>
      find_str search_str search_key POSTS = Inl AttributeError"
    by (simp add: find_str_def)
qed

lemma seed_titles:
  "str_of (seed_post1 ''title'') = ''First post''" "str_of (seed_post2 ''title'') = ''Second post''"
  "str_of (seed_post1 ''content'') = ''This is the first post.''"
  "str_of (seed_post2 ''content'') = ''This is the second post.''"
  by (simp_all add: seed_post1_def seed_post2_def)

lemma seed_strings:
  "list_all (\<lambda>p. is_str (p ''title'')) POSTS0" "list_all (\<lambda>p. is_str (p ''content'')) POSTS0"
  by (simp_all add: POSTS0_def seed_post1_def seed_post2_def)

lemma seed_occurrences:
  "occurs_ignoring_case ''POST'' ''First post''" "occurs_ignoring_case ''POST'' ''Second post''"
  "occurs_ignoring_case ''first'' ''First post''" "\<not> occurs_ignoring_case ''first'' ''Second post''"
  "occurs_ignoring_case ''FIRST'' ''This is the first post.''"
  "\<not> occurs_ignoring_case ''FIRST'' ''This is the second post.''"
  unfolding occurs_ignoring_case_iff by code_simp+

lemma seed_fields:
  "seed_post1 ''title'' = Some (VStr ''First post'')"
  "seed_post2 ''title'' = Some (VStr ''Second post'')"
  "seed_post1 ''content'' = Some (VStr ''This is the first post.'')"
  "seed_post2 ''content'' = Some (VStr ''This is the second post.'')"
  by (simp_all add: seed_post1_def seed_post2_def)

text \<open>The store with the integer title, written out, and what its titles are.\<close>

lemma int_title_store_eq:
  "int_title_store =
     [seed_post1, seed_post2,
      [''id'' \<mapsto> VInt 3, ''title'' \<mapsto> VInt 5, ''content'' \<mapsto> VStr ''x'']]"
  by (simp add: int_title_store_def add_blog_post_def get_next_id_def POSTS0_def Let_def
      seed_post1_def seed_post2_def)

lemma int_title_store_titles:
  "\<forall>p \<in> set int_title_store. p ''title'' \<noteq> None"
  "\<exists>p \<in> set int_title_store. is_str (p ''title'')"
  "\<exists>p \<in> set int_title_store. is_int (p ''title'')"
  "\<not> list_all (\<lambda>p. is_str (p ''title'')) int_title_store"
  by (simp_all add: int_title_store_eq seed_fields)

text \<open>
  On the seed data the query \<open>POST\<close> finds both titles, and an empty query or an empty
  field name finds nothing.
\<close>

theorem find_str_result_witness:
  "find_str ''POST'' ''title'' POSTS0 = Inr [seed_post1, seed_post2] \<and>
   find_str ''FIRST'' ''content'' POSTS0 = Inr [seed_post1] \<and>
   find_str [] ''title'' POSTS0 = Inr [] \<and>
   find_str ''POST'' [] POSTS0 = Inr [] \<and>
   (find_str ''POST'' ''id'' POSTS0 = Inl KeyError \<or> find_str ''POST'' ''id'' POSTS0 = Inl AttributeError)"
proof -
  have 1: "find_str ''POST'' ''title'' POSTS0 = Inr [seed_post1, seed_post2]"
    using find_str_result [of "''POST''" "''title''" POSTS0] seed_strings(1)
    by (simp add: POSTS0_def seed_titles seed_occurrences)
  have 2: "find_str ''FIRST'' ''content'' POSTS0 = Inr [seed_post1]"
    using find_str_result [of "''FIRST''" "''content''" POSTS0] seed_strings(2)
    by (simp add: POSTS0_def seed_titles seed_occurrences)
  have 3: "find_str [] ''title'' POSTS0 = Inr []"
    using find_str_result [of "[]" "''title''" POSTS0] by simp
  have 4: "find_str ''POST'' [] POSTS0 = Inr []"
    using find_str_result [of "''POST''" "[]" POSTS0] by simp
  have "\<not> list_all (\<lambda>p. is_str (p ''id'')) POSTS0"
    by (simp add: POSTS0_def seed_post1_def)
  then have 5: "find_str ''POST'' ''id'' POSTS0 = Inl KeyError \<or>
      find_str ''POST'' ''id'' POSTS0 = Inl AttributeError"
    using find_str_result [of "''POST''" "''id''" POSTS0] by simp
  from 1 2 3 4 5 show ?thesis by (intro conjI)
qed

text \<open>
  Claim C2 as stated fails on an unsupported field: with a non-empty query, the field
  \<open>author\<close> raises KeyError on the seed data instead of giving the empty list.
\<close>

theorem find_str_unsupported_field_counterexample:
  "find_str ''post'' ''author'' POSTS0 = Inl KeyError"
  by (simp add: find_str_def POSTS0_def seed_post1_def)

section \<open>Properties of the search handler\<close>

lemma get_posts_search_title:
  assumes "t \<noteq> []" "list_all (\<lambda>p. is_str (p ''title'')) POSTS"
  shows "get_posts_search (Some t) content POSTS =
     (Inr (Jsonify_posts (filter (\<lambda>p. occurs_ignoring_case t (str_of (p ''title''))) POSTS), 200), POSTS)"
  using assms by (simp add: get_posts_search_def find_in_title_def find_str_strings)

lemma get_posts_search_content:
  assumes "\<not> truthy title" "c \<noteq> []" "list_all (\<lambda>p. is_str (p ''content'')) POSTS"
  shows "get_posts_search title (Some c) POSTS =
     (Inr (Jsonify_posts (filter (\<lambda>p. occurs_ignoring_case c (str_of (p ''content''))) POSTS), 200), POSTS)"
  using assms by (simp add: get_posts_search_def find_in_content_def find_str_strings)

lemma get_posts_search_neither:
  assumes "\<not> truthy title" "\<not> truthy content"
  shows "get_posts_search title content POSTS = (Inr (Bare_list [], 404), POSTS)"
  using assms by (simp add: get_posts_search_def)

text \<open>
  Claim C8, as the code has it. The search handler answers 404 with the bare empty list
  when neither parameter has a non-empty value (absent or empty). With a non-empty
  \<open>title\<close> it answers 200 with the posts whose title matches; without one and with a
  non-empty \<open>content\<close> it answers 200 with the posts whose content matches (the searched
  field holding a string in every post). The list of matches may be empty.
\<close>

theorem get_posts_search_result:
  "(\<not> truthy title \<and> \<not> truthy content \<longrightarrow>
      get_posts_search title content POSTS = (Inr (Bare_list [], 404), POSTS)) \<and>
   (title = Some t \<and> t \<noteq> [] \<and> list_all (\<lambda>p. is_str (p ''title'')) POSTS \<longrightarrow>
      get_posts_search title content POSTS =
        (Inr (Jsonify_posts (filter (\<lambda>p. occurs_ignoring_case t (str_of (p ''title''))) POSTS), 200),
         POSTS)) \<and>
   (\<not> truthy title \<and> content = Some c \<and> c \<noteq> [] \<and> list_all (\<lambda>p. is_str (p ''content'')) POSTS \<longrightarrow>
      get_posts_search title content POSTS =
        (Inr (Jsonify_posts (filter (\<lambda>p. occurs_ignoring_case c (str_of (p ''content''))) POSTS), 200),
         POSTS))"
proof (intro conjI impI)
  assume "\<not> truthy title \<and> \<not> truthy content"
  then show "get_posts_search title content POSTS = (Inr (Bare_list [], 404), POSTS)"
    by (simp add: get_posts_search_neither)
next
  assume "title = Some t \<and> t \<noteq> [] \<and> list_all (\<lambda>p. is_str (p ''title'')) POSTS"
  then show "get_posts_search title content POSTS =
        (Inr (Jsonify_posts (filter (\<lambda>p. occurs_ignoring_case t (str_of (p ''title''))) POSTS), 200),
         POSTS)"
    by (simp add: get_posts_search_title)
next
  assume "\<not> truthy title \<and> content = Some c \<and> c \<noteq> [] \<and> list_all (\<lambda>p. is_str (p ''content'')) POSTS"
  then show "get_posts_search title content POSTS =
        (Inr (Jsonify_posts (filter (\<lambda>p. occurs_ignoring_case c (str_of (p ''content''))) POSTS), 200),
         POSTS)"
    by (simp add: get_posts_search_content)
qed

text \<open>
  On the seed data: no parameter gives 404, the title \<open>POST\<close> gives both posts, the
  content \<open>FIRST\<close> gives the first post, and a title that occurs nowhere gives 200 with
  the empty list.
\<close>

theorem get_posts_search_result_witness:
  "get_posts_search None None POSTS0 = (Inr (Bare_list [], 404), POSTS0) \<and>
   get_posts_search (Some ''POST'') None POSTS0 =
     (Inr (Jsonify_posts [seed_post1, seed_post2], 200), POSTS0) \<and>
   get_posts_search None (Some ''FIRST'') POSTS0 = (Inr (Jsonify_posts [seed_post1], 200), POSTS0) \<and>
   get_posts_search (Some ''zebra'') None POSTS0 = (Inr (Jsonify_posts [], 200), POSTS0)"
proof -
  have z: "\<not> occurs_ignoring_case ''zebra'' ''First post''"
    "\<not> occurs_ignoring_case ''zebra'' ''Second post''"
    unfolding occurs_ignoring_case_iff by code_simp+
  have 1: "get_posts_search None None POSTS0 = (Inr (Bare_list [], 404), POSTS0)"
    using get_posts_search_result [of None None POSTS0] by simp
  have 2: "get_posts_search (Some ''POST'') None POSTS0 =
     (Inr (Jsonify_posts [seed_post1, seed_post2], 200), POSTS0)"
    using get_posts_search_result [of "Some ''POST''" None POSTS0 "''POST''"] seed_strings(1)
    by (simp add: seed_titles seed_occurrences) (simp add: POSTS0_def seed_titles seed_occurrences)
  have 3: "get_posts_search None (Some ''FIRST'') POSTS0 = (Inr (Jsonify_posts [seed_post1], 200), POSTS0)"
    using get_posts_search_result [of None "Some ''FIRST''" POSTS0 _ "''FIRST''"] seed_strings(2)
    by simp (simp add: POSTS0_def seed_titles seed_occurrences)
  have 4: "get_posts_search (Some ''zebra'') None POSTS0 = (Inr (Jsonify_posts [], 200), POSTS0)"
    using get_posts_search_result [of "Some ''zebra''" None POSTS0 "''zebra''"] seed_strings(1)
    by simp (simp add: POSTS0_def seed_titles z)
  from 1 2 3 4 show ?thesis by (intro conjI)
qed

text \<open>
  Claim C8 as stated fails: a request that supplies \<open>title\<close> with an empty value is
  answered with 404 and the bare empty list, not with 200.
\<close>

theorem get_posts_search_empty_title_counterexample:
  "get_posts_search (Some []) None POSTS0 = (Inr (Bare_list [], 404), POSTS0)"
  by (simp add: get_posts_search_def)

text \<open>A title search over posts that are not all strings under \<open>title\<close> raises.\<close>

lemma get_posts_search_title_raises:
  assumes "t \<noteq> []" "\<not> list_all (\<lambda>p. is_str (p ''title'')) POSTS"
  shows "get_posts_search (Some t) content POSTS = (Inl KeyError, POSTS) \<or>
         get_posts_search (Some t) content POSTS = (Inl AttributeError, POSTS)"
  using assms comprehension_raises [OF assms(2), of t]
  by (auto simp: get_posts_search_def find_in_title_def find_str_def)

text \<open>
  Claim C9, as the code has it. When both parameters have non-empty values, the answer is
  the one the title alone gives, whatever the content is. It is 200 with the posts whose
  title contains the title query (case ignored) when every stored title is a string; when
  some post has no title or an integer title, the title search raises KeyError or
  AttributeError and no response is built.
\<close>

theorem get_posts_search_title_first:
  "t \<noteq> [] \<and> c \<noteq> [] \<longrightarrow>
     get_posts_search (Some t) (Some c) POSTS = get_posts_search (Some t) None POSTS \<and>
     (list_all (\<lambda>p. is_str (p ''title'')) POSTS \<longrightarrow>
        get_posts_search (Some t) (Some c) POSTS =
          (Inr (Jsonify_posts (filter (\<lambda>p. occurs_ignoring_case t (str_of (p ''title''))) POSTS), 200),
           POSTS)) \<and>
     (\<not> list_all (\<lambda>p. is_str (p ''title'')) POSTS \<longrightarrow>
        get_posts_search (Some t) (Some c) POSTS = (Inl KeyError, POSTS) \<or>
        get_posts_search (Some t) (Some c) POSTS = (Inl AttributeError, POSTS))"
proof (intro impI conjI)
  assume "t \<noteq> [] \<and> c \<noteq> []"
  then show "get_posts_search (Some t) (Some c) POSTS = get_posts_search (Some t) None POSTS"
    by (simp add: get_posts_search_def)
next
  assume "t \<noteq> [] \<and> c \<noteq> []" and "list_all (\<lambda>p. is_str (p ''title'')) POSTS"
  then show "get_posts_search (Some t) (Some c) POSTS =
          (Inr (Jsonify_posts (filter (\<lambda>p. occurs_ignoring_case t (str_of (p ''title''))) POSTS), 200),
           POSTS)"
    by (simp add: get_posts_search_title)
next
  assume "t \<noteq> [] \<and> c \<noteq> []" and "\<not> list_all (\<lambda>p. is_str (p ''title'')) POSTS"
  then show "get_posts_search (Some t) (Some c) POSTS = (Inl KeyError, POSTS) \<or>
        get_posts_search (Some t) (Some c) POSTS = (Inl AttributeError, POSTS)"
    by (simp add: get_posts_search_title_raises)
qed

text \<open>
  On the seed data the title \<open>first\<close> with the content \<open>second\<close> gives the first post
  alone, although the content query occurs in the second post; on the store with the
  integer title the same request raises.
\<close>

theorem get_posts_search_title_first_witness:
  "get_posts_search (Some ''first'') (Some ''second'') POSTS0 =
     (Inr (Jsonify_posts [seed_post1], 200), POSTS0) \<and>
   occurs_ignoring_case ''second'' (str_of (seed_post2 ''content'')) \<and>
   (get_posts_search (Some ''first'') (Some ''second'') int_title_store =
      (Inl KeyError, int_title_store) \<or>
    get_posts_search (Some ''first'') (Some ''second'') int_title_store =
      (Inl AttributeError, int_title_store))"
proof -
  have o: "occurs_ignoring_case ''second'' (str_of (seed_post2 ''content''))"
    unfolding occurs_ignoring_case_iff seed_titles by code_simp
  have f: "filter (\<lambda>p. occurs_ignoring_case ''first'' (str_of (p ''title''))) POSTS0 = [seed_post1]"
    by (simp add: POSTS0_def seed_titles seed_occurrences)
  have ne: "''first'' \<noteq> [] \<and> ''second'' \<noteq> []" by simp
  note inst = get_posts_search_title_first [of "''first''" "''second''", THEN mp, OF ne]
  from inst [of POSTS0, THEN conjunct2, THEN conjunct1, THEN mp, OF seed_strings(1)]
  have 1: "get_posts_search (Some ''first'') (Some ''second'') POSTS0 =
     (Inr (Jsonify_posts [seed_post1], 200), POSTS0)"
    unfolding f .
  from inst [of int_title_store, THEN conjunct2, THEN conjunct2, THEN mp,
      OF int_title_store_titles(4)]
  have 2: "get_posts_search (Some ''first'') (Some ''second'') int_title_store =
      (Inl KeyError, int_title_store) \<or>
    get_posts_search (Some ''first'') (Some ''second'') int_title_store =
      (Inl AttributeError, int_title_store)" .
  from 1 o 2 show ?thesis by (intro conjI)
qed

text \<open>
  Claim C9 as stated fails: once a post with the integer title 5 is stored, a search with
  both parameters raises AttributeError (\<open>.lower()\<close> on an integer) instead of answering
  200 with the matching posts.
\<close>

theorem get_posts_search_integer_title_counterexample:
  "int_title_store = snd (add_blog_post (VInt 5) (VStr ''x'') POSTS0) \<and>
   get_posts_search (Some ''a'') (Some ''b'') int_title_store = (Inl AttributeError, int_title_store)"
proof -
  have 1: "int_title_store = snd (add_blog_post (VInt 5) (VStr ''x'') POSTS0)"
    by (rule int_title_store_def)
  have "comprehension ''a'' ''title'' int_title_store = Inl AttributeError"
    by (simp add: int_title_store_eq seed_fields)
  then have 2: "get_posts_search (Some ''a'') (Some ''b'') int_title_store =
      (Inl AttributeError, int_title_store)"
    by (simp add: get_posts_search_def find_in_title_def find_str_def)
  from 1 2 show ?thesis by (intro conjI)
qed

text \<open>
  Claim C10. When both parameters are present with empty values, the handler answers as
  if they were absent: 404 with the bare empty list, and not 200 with every post.
\<close>

theorem get_posts_search_empty_values:
  "get_posts_search (Some []) (Some []) POSTS = (Inr (Bare_list [], 404), POSTS) \<and>
   get_posts_search (Some []) (Some []) POSTS = get_posts_search None None POSTS \<and>
   get_posts_search (Some []) (Some []) POSTS \<noteq> (Inr (Jsonify_posts POSTS, 200), POSTS)"
  by (simp add: get_posts_search_def)

text \<open>On the seed data, two empty values give 404 and the bare empty list.\<close>

theorem get_posts_search_empty_values_witness:
  "get_posts_search (Some []) (Some []) POSTS0 = (Inr (Bare_list [], 404), POSTS0)"
  using get_posts_search_empty_values [of POSTS0] by (rule conjunct1)

section \<open>Properties of sorting\<close>

lemma stable_sort_mset: "mset (stable_sort f reverse xs) = mset xs"
  by (simp add: stable_sort_def)

lemma stable_sort_ascending:
  "sorted_wrt (\<lambda>a b. f a \<le> f b) (stable_sort f False xs)"
proof -
  have "sorted (map f (sort_key f xs))" by simp
  then show ?thesis by (simp add: stable_sort_def sorted_wrt_map)
qed

lemma stable_sort_descending:
  "sorted_wrt (\<lambda>a b. f b \<le> f a) (stable_sort f True xs)"
proof -
  have "sorted (map f (sort_key f (rev xs)))" by simp
  then have "sorted_wrt (\<lambda>a b. f a \<le> f b) (sort_key f (rev xs))"
    by (simp add: sorted_wrt_map)
  then show ?thesis by (simp add: stable_sort_def sorted_wrt_rev)
qed

text \<open>Both directions keep posts with equal keys in the order of the input.\<close>

lemma stable_sort_stable:
  "filter (\<lambda>y. f y = v) (stable_sort f reverse xs) = filter (\<lambda>y. f y = v) xs"
proof (cases reverse)
  case True
  have "filter (\<lambda>y. f y = v) (rev (sort_key f (rev xs))) =
        rev (filter (\<lambda>y. f y = v) (sort_key f (rev xs)))"
    by (simp add: rev_filter)
  also have "\<dots> = rev (filter (\<lambda>y. f y = v) (rev xs))"
    by (simp only: sort_key_stable)
  also have "\<dots> = filter (\<lambda>y. f y = v) xs"
    by (simp add: rev_filter)
  finally show ?thesis using True by (simp add: stable_sort_def)
next
  case False
  then show ?thesis by (simp add: stable_sort_def sort_key_stable)
qed

lemma sort_posts_by_strings:
  assumes "list_all (\<lambda>p. is_str (p key)) POSTS"
  shows "sort_posts_by key is_desc POSTS =
           (Inr (stable_sort (\<lambda>d. str_of (d key)) is_desc POSTS), POSTS)"
proof -
  have "is_str v \<Longrightarrow> v \<noteq> None" for v
    by (cases v) auto
  then have "\<not> list_ex (\<lambda>d. d key = None) POSTS"
    using assms by (induction POSTS) auto
  with assms show ?thesis by (simp add: sort_posts_by_def sorted_by_def)
qed

text \<open>The sort by a key yields a list that is sorted stably by that key.\<close>

lemma stable_sort_sorted_stably: "sorted_stably f reverse xs (stable_sort f reverse xs)"
  unfolding sorted_stably_def
  using stable_sort_mset [of f reverse xs] stable_sort_ascending [of f xs]
    stable_sort_descending [of f xs] stable_sort_stable [of f _ reverse xs]
  by (cases reverse) simp_all

lemma is_str_not_None: "is_str v \<Longrightarrow> v \<noteq> None"
  by (induction v rule: is_str.induct) auto

lemma is_int_not_None: "is_int v \<Longrightarrow> v \<noteq> None"
  by (induction v rule: is_int.induct) auto

lemma is_int_not_str: "is_int v \<Longrightarrow> \<not> is_str v"
  by (induction v rule: is_int.induct) auto

lemma sort_posts_by_store: "snd (sort_posts_by key is_desc POSTS) = POSTS"
  by (simp add: sort_posts_by_def)

lemma sort_posts_by_missing:
  assumes "\<exists>p \<in> set POSTS. p key = None"
  shows "sort_posts_by key is_desc POSTS = (Inl KeyError, POSTS)"
  using assms by (simp add: sort_posts_by_def sorted_by_def list_ex_iff)

lemma sort_posts_by_ints:
  assumes "POSTS \<noteq> []" "list_all (\<lambda>p. is_int (p key)) POSTS"
  shows "sort_posts_by key is_desc POSTS =
           (Inr (stable_sort (\<lambda>d. int_of (d key)) is_desc POSTS), POSTS)"
proof -
  have none: "\<not> list_ex (\<lambda>d. d key = None) POSTS"
    using assms(2) is_int_not_None by (auto simp: list_ex_iff list_all_iff)
  from assms obtain p where "p \<in> set POSTS" "is_int (p key)"
    by (cases POSTS) auto
  then have "\<not> list_all (\<lambda>p. is_str (p key)) POSTS"
    using is_int_not_str by (auto simp: list_all_iff)
  with none assms(2) show ?thesis by (simp add: sort_posts_by_def sorted_by_def)
qed

lemma sort_posts_by_mixed:
  assumes "\<forall>p \<in> set POSTS. p key \<noteq> None"
    and "\<exists>p \<in> set POSTS. is_str (p key)" and "\<exists>p \<in> set POSTS. is_int (p key)"
  shows "sort_posts_by key is_desc POSTS = (Inl TypeError, POSTS)"
proof -
  have none: "\<not> list_ex (\<lambda>d. d key = None) POSTS"
    using assms(1) by (simp add: list_ex_iff)
  have nstr: "\<not> list_all (\<lambda>p. is_str (p key)) POSTS"
    using assms(3) is_int_not_str by (auto simp: list_all_iff)
  have nint: "\<not> list_all (\<lambda>p. is_int (p key)) POSTS"
    using assms(2) is_int_not_str by (auto simp: list_all_iff)
  from none nstr nint show ?thesis by (simp add: sort_posts_by_def sorted_by_def)
qed

text \<open>
  Claim C7, as the code has it. \<open>sort_posts_by\<close> never changes the stored list. When
  every post holds a string under the key, it returns a list with the same posts, ordered
  by the key in the lexicographic order of strings, upwards or downwards as the flag
  says, with posts of equal key in their stored order in both directions. The code does
  not check what the posts hold: when some post lacks the key it raises KeyError, when
  all posts hold integers it orders them by number in the same stable way, and when
  strings and integers are mixed it raises TypeError.
\<close>

theorem sort_posts_by_sorted_stable:
  "snd (sort_posts_by key is_desc POSTS) = POSTS \<and>
   (list_all (\<lambda>p. is_str (p key)) POSTS \<longrightarrow>
      (\<exists>r. fst (sort_posts_by key is_desc POSTS) = Inr r \<and>
           sorted_stably (\<lambda>p. str_of (p key)) is_desc POSTS r)) \<and>
   ((\<exists>p \<in> set POSTS. p key = None) \<longrightarrow>
      fst (sort_posts_by key is_desc POSTS) = Inl KeyError) \<and>
   (POSTS \<noteq> [] \<and> list_all (\<lambda>p. is_int (p key)) POSTS \<longrightarrow>
      (\<exists>r. fst (sort_posts_by key is_desc POSTS) = Inr r \<and>
           sorted_stably (\<lambda>p. int_of (p key)) is_desc POSTS r)) \<and>
   ((\<forall>p \<in> set POSTS. p key \<noteq> None) \<and> (\<exists>p \<in> set POSTS. is_str (p key)) \<and>
    (\<exists>p \<in> set POSTS. is_int (p key)) \<longrightarrow>
      fst (sort_posts_by key is_desc POSTS) = Inl TypeError)"
proof (intro conjI impI)
  show "snd (sort_posts_by key is_desc POSTS) = POSTS"
    by (rule sort_posts_by_store)
next
  assume "list_all (\<lambda>p. is_str (p key)) POSTS"
  then have "fst (sort_posts_by key is_desc POSTS) =
      Inr (stable_sort (\<lambda>p. str_of (p key)) is_desc POSTS)"
    by (simp add: sort_posts_by_strings)
  with stable_sort_sorted_stably [of "\<lambda>p. str_of (p key)" is_desc POSTS]
  show "\<exists>r. fst (sort_posts_by key is_desc POSTS) = Inr r \<and>
           sorted_stably (\<lambda>p. str_of (p key)) is_desc POSTS r"
    by simp
next
  assume "\<exists>p \<in> set POSTS. p key = None"
  then show "fst (sort_posts_by key is_desc POSTS) = Inl KeyError"
    by (simp add: sort_posts_by_missing)
next
  assume "POSTS \<noteq> [] \<and> list_all (\<lambda>p. is_int (p key)) POSTS"
  then have "fst (sort_posts_by key is_desc POSTS) =
      Inr (stable_sort (\<lambda>p. int_of (p key)) is_desc POSTS)"
    by (simp add: sort_posts_by_ints)
  with stable_sort_sorted_stably [of "\<lambda>p. int_of (p key)" is_desc POSTS]
  show "\<exists>r. fst (sort_posts_by key is_desc POSTS) = Inr r \<and>
           sorted_stably (\<lambda>p. int_of (p key)) is_desc POSTS r"
    by simp
next
  assume "(\<forall>p \<in> set POSTS. p key \<noteq> None) \<and> (\<exists>p \<in> set POSTS. is_str (p key)) \<and>
    (\<exists>p \<in> set POSTS. is_int (p key))"
  then show "fst (sort_posts_by key is_desc POSTS) = Inl TypeError"
    by (simp add: sort_posts_by_mixed)
qed

lemma tie_titles:
  "post_b ''title'' = Some (VStr ''b'')" "post_a1 ''title'' = Some (VStr ''a'')"
  "post_a2 ''title'' = Some (VStr ''a'')"
  by (simp_all add: post_b_def post_a1_def post_a2_def)

lemma number_titles:
  "post_n10 ''title'' = Some (VInt 10)" "post_n9 ''title'' = Some (VInt 9)"
  by (simp_all add: post_n10_def post_n9_def)

text \<open>
  Sorting the seed data by title downwards puts the second post first. With two posts of
  equal title, both directions keep these two in their stored order. Integer titles are
  ordered by number, a key that no post has raises KeyError, and the store with the
  integer title among string titles raises TypeError.
\<close>

theorem sort_posts_by_sorted_stable_witness:
  "sort_posts_by ''title'' True POSTS0 = (Inr [seed_post2, seed_post1], POSTS0) \<and>
   sort_posts_by ''title'' False [post_b, post_a1, post_a2] =
     (Inr [post_a1, post_a2, post_b], [post_b, post_a1, post_a2]) \<and>
   sort_posts_by ''title'' True [post_b, post_a1, post_a2] =
     (Inr [post_b, post_a1, post_a2], [post_b, post_a1, post_a2]) \<and>
   sort_posts_by ''title'' False [post_n10, post_n9] =
     (Inr [post_n9, post_n10], [post_n10, post_n9]) \<and>
   (\<exists>r. fst (sort_posts_by ''title'' True POSTS0) = Inr r \<and>
        sorted_stably (\<lambda>p. str_of (p ''title'')) True POSTS0 r) \<and>
   fst (sort_posts_by ''author'' False POSTS0) = Inl KeyError \<and>
   fst (sort_posts_by ''title'' False int_title_store) = Inl TypeError"
proof -
  have 1: "sort_posts_by ''title'' True POSTS0 = (Inr [seed_post2, seed_post1], POSTS0)"
    by (simp add: sort_posts_by_def sorted_by_def stable_sort_def POSTS0_def seed_fields)
  have 2: "sort_posts_by ''title'' False [post_b, post_a1, post_a2] =
     (Inr [post_a1, post_a2, post_b], [post_b, post_a1, post_a2])"
    by (simp add: sort_posts_by_def sorted_by_def stable_sort_def tie_titles)
  have 3: "sort_posts_by ''title'' True [post_b, post_a1, post_a2] =
     (Inr [post_b, post_a1, post_a2], [post_b, post_a1, post_a2])"
    by (simp add: sort_posts_by_def sorted_by_def stable_sort_def tie_titles)
  have 4: "sort_posts_by ''title'' False [post_n10, post_n9] =
     (Inr [post_n9, post_n10], [post_n10, post_n9])"
    by (simp add: sort_posts_by_def sorted_by_def stable_sort_def number_titles)
  note total = sort_posts_by_sorted_stable [where key = "''title''"]
  from total [where POSTS = POSTS0 and is_desc = True, THEN conjunct2, THEN conjunct1,
      THEN mp, OF seed_strings(1)]
  have 5: "\<exists>r. fst (sort_posts_by ''title'' True POSTS0) = Inr r \<and>
        sorted_stably (\<lambda>p. str_of (p ''title'')) True POSTS0 r" .
  have missing: "\<exists>p \<in> set POSTS0. p ''author'' = None"
    by (simp add: POSTS0_def seed_post1_def)
  from sort_posts_by_sorted_stable [where key = "''author''" and POSTS = POSTS0
      and is_desc = False, THEN conjunct2, THEN conjunct2, THEN conjunct1, THEN mp, OF missing]
  have 6: "fst (sort_posts_by ''author'' False POSTS0) = Inl KeyError" .
  have mixed: "(\<forall>p \<in> set int_title_store. p ''title'' \<noteq> None) \<and>
      (\<exists>p \<in> set int_title_store. is_str (p ''title'')) \<and>
      (\<exists>p \<in> set int_title_store. is_int (p ''title''))"
    by (intro conjI) (fact int_title_store_titles(1), fact int_title_store_titles(2),
      fact int_title_store_titles(3))
  from total [where POSTS = int_title_store and is_desc = False, THEN conjunct2, THEN conjunct2,
      THEN conjunct2, THEN conjunct2, THEN mp, OF mixed]
  have 7: "fst (sort_posts_by ''title'' False int_title_store) = Inl TypeError" .
  from 1 2 3 4 5 6 7 show ?thesis by (intro conjI)
qed

text \<open>
  Claim C7 as stated fails: on the store with the integer title 5 among string titles,
  sorting by title raises TypeError; and titles that are the integers 10 and 9 are put in
  the order 9, 10, while the string \<open>10\<close> stands before the string \<open>9\<close>.
\<close>

theorem sort_posts_by_integer_title_counterexample:
  "int_title_store = snd (add_blog_post (VInt 5) (VStr ''x'') POSTS0) \<and>
   sort_posts_by ''title'' False int_title_store = (Inl TypeError, int_title_store) \<and>
   sort_posts_by ''title'' False [post_n10, post_n9] = (Inr [post_n9, post_n10], [post_n10, post_n9]) \<and>
   ''10'' < ''9''"
proof -
  have 1: "int_title_store = snd (add_blog_post (VInt 5) (VStr ''x'') POSTS0)"
    by (rule int_title_store_def)
  have 2: "sort_posts_by ''title'' False int_title_store = (Inl TypeError, int_title_store)"
    by (simp add: sort_posts_by_def sorted_by_def int_title_store_eq seed_fields)
  have 3: "sort_posts_by ''title'' False [post_n10, post_n9] =
      (Inr [post_n9, post_n10], [post_n10, post_n9])"
    by (simp add: sort_posts_by_def sorted_by_def stable_sort_def number_titles)
  have 4: "''10'' < ''9''" by simp
  from 1 2 3 4 show ?thesis by (intro conjI)
qed

section \<open>Properties of the list handler\<close>

text \<open>With a valid pair of parameters the handler answers with what the sort gives.\<close>

lemma get_posts_valid:
  assumes "key = ''title'' \<or> key = ''content''" "d = Some ''asc'' \<or> d = Some ''desc''"
  shows "get_posts (Some key) d POSTS =
    (case fst (sort_posts_by key (d = Some ''desc'') POSTS) of
       Inl e \<Rightarrow> (Inl e, POSTS)
     | Inr sorted_list \<Rightarrow> (Inr (Jsonify_posts sorted_list, 200), POSTS))"
  using assms by (auto simp: get_posts_def sort_posts_by_def split: sum.splits)

text \<open>
  Claim C3, as the code has it. The list handler checks the parameters only when both
  \<open>sort\<close> and \<open>direction\<close> have non-empty values: then any value of \<open>sort\<close> other than
  \<open>title\<close> and \<open>content\<close>, or of \<open>direction\<close> other than \<open>asc\<close> and \<open>desc\<close>, is answered
  400 with the wrong-value message. When either parameter is absent or empty, the answer
  is 200 with the posts in stored order. A valid pair is answered 200 with the posts
  sorted stably by that field in that direction when every post holds a string under the
  field (lexicographic order) or every post holds an integer there (numeric order);
  it raises KeyError when some post lacks the field, and TypeError when strings and
  integers are mixed. The stored list is never changed.
\<close>

theorem get_posts_result:
  "(truthy s \<and> truthy d \<and>
    \<not> ((s = Some ''title'' \<or> s = Some ''content'') \<and> (d = Some ''asc'' \<or> d = Some ''desc'')) \<longrightarrow>
      get_posts s d POSTS = (Inr (Message ''Wrong sort or direction value'', 400), POSTS)) \<and>
   (\<not> (truthy s \<and> truthy d) \<longrightarrow>
      get_posts s d POSTS = (Inr (Jsonify_posts POSTS, 200), POSTS)) \<and>
   (s = Some key \<and> (key = ''title'' \<or> key = ''content'') \<and> (d = Some ''asc'' \<or> d = Some ''desc'') \<longrightarrow>
      (list_all (\<lambda>p. is_str (p key)) POSTS \<longrightarrow>
         (\<exists>r. get_posts s d POSTS = (Inr (Jsonify_posts r, 200), POSTS) \<and>
              sorted_stably (\<lambda>p. str_of (p key)) (d = Some ''desc'') POSTS r)) \<and>
      ((\<exists>p \<in> set POSTS. p key = None) \<longrightarrow> get_posts s d POSTS = (Inl KeyError, POSTS)) \<and>
      (POSTS \<noteq> [] \<and> list_all (\<lambda>p. is_int (p key)) POSTS \<longrightarrow>
         (\<exists>r. get_posts s d POSTS = (Inr (Jsonify_posts r, 200), POSTS) \<and>
              sorted_stably (\<lambda>p. int_of (p key)) (d = Some ''desc'') POSTS r)) \<and>
      ((\<forall>p \<in> set POSTS. p key \<noteq> None) \<and> (\<exists>p \<in> set POSTS. is_str (p key)) \<and>
       (\<exists>p \<in> set POSTS. is_int (p key)) \<longrightarrow>
         get_posts s d POSTS = (Inl TypeError, POSTS)))"
  (is "(?invalid \<longrightarrow> ?refused) \<and> (?partial \<longrightarrow> ?plain) \<and> (?valid \<longrightarrow> ?strings \<and> ?missing \<and> ?ints \<and> ?mixed)")
proof (intro conjI)
  show "?invalid \<longrightarrow> ?refused" by (auto simp: get_posts_def)
next
  show "?partial \<longrightarrow> ?plain" by (auto simp: get_posts_def)
next
  show "?valid \<longrightarrow> ?strings \<and> ?missing \<and> ?ints \<and> ?mixed"
  proof
    assume ?valid
    then have s: "s = Some key" and key: "key = ''title'' \<or> key = ''content''"
      and d: "d = Some ''asc'' \<or> d = Some ''desc''"
      by simp_all
    note run = get_posts_valid [OF key d, of POSTS, folded s]
    have strings: ?strings
    proof
      assume "list_all (\<lambda>p. is_str (p key)) POSTS"
      then have "get_posts s d POSTS =
          (Inr (Jsonify_posts (stable_sort (\<lambda>p. str_of (p key)) (d = Some ''desc'') POSTS), 200), POSTS)"
        by (simp add: run sort_posts_by_strings)
      with stable_sort_sorted_stably [of "\<lambda>p. str_of (p key)" "d = Some ''desc''" POSTS]
      show "\<exists>r. get_posts s d POSTS = (Inr (Jsonify_posts r, 200), POSTS) \<and>
              sorted_stably (\<lambda>p. str_of (p key)) (d = Some ''desc'') POSTS r"
        by simp
    qed
    have missing: ?missing
      by (simp add: run sort_posts_by_missing)
    have ints: ?ints
    proof
      assume "POSTS \<noteq> [] \<and> list_all (\<lambda>p. is_int (p key)) POSTS"
      then have "get_posts s d POSTS =
          (Inr (Jsonify_posts (stable_sort (\<lambda>p. int_of (p key)) (d = Some ''desc'') POSTS), 200), POSTS)"
        by (simp add: run sort_posts_by_ints)
      with stable_sort_sorted_stably [of "\<lambda>p. int_of (p key)" "d = Some ''desc''" POSTS]
      show "\<exists>r. get_posts s d POSTS = (Inr (Jsonify_posts r, 200), POSTS) \<and>
              sorted_stably (\<lambda>p. int_of (p key)) (d = Some ''desc'') POSTS r"
        by simp
    qed
    have mixed: ?mixed
      by (simp add: run sort_posts_by_mixed)
    from strings missing ints mixed show "?strings \<and> ?missing \<and> ?ints \<and> ?mixed"
      by (intro conjI)
  qed
qed

text \<open>
  On the seed data: \<open>sort=title&direction=up\<close> is answered 400, no parameters give the
  stored list, and \<open>sort=title&direction=desc\<close> gives the second post first. On the store
  with the integer title, \<open>sort=title&direction=asc\<close> raises TypeError.
\<close>

theorem get_posts_result_witness:
  "get_posts (Some ''title'') (Some ''up'') POSTS0 =
     (Inr (Message ''Wrong sort or direction value'', 400), POSTS0) \<and>
   get_posts None None POSTS0 = (Inr (Jsonify_posts POSTS0, 200), POSTS0) \<and>
   get_posts (Some ''title'') (Some ''desc'') POSTS0 =
     (Inr (Jsonify_posts [seed_post2, seed_post1], 200), POSTS0) \<and>
   (\<exists>r. get_posts (Some ''title'') (Some ''desc'') POSTS0 = (Inr (Jsonify_posts r, 200), POSTS0) \<and>
        sorted_stably (\<lambda>p. str_of (p ''title'')) True POSTS0 r) \<and>
   get_posts (Some ''title'') (Some ''asc'') int_title_store = (Inl TypeError, int_title_store)"
proof -
  note inst = get_posts_result [where key = "''title''"]
  have 1: "get_posts (Some ''title'') (Some ''up'') POSTS0 =
     (Inr (Message ''Wrong sort or direction value'', 400), POSTS0)"
    using inst [where s = "Some ''title''" and d = "Some ''up''" and POSTS = POSTS0, THEN conjunct1]
    by simp
  have 2: "get_posts None None POSTS0 = (Inr (Jsonify_posts POSTS0, 200), POSTS0)"
    using inst [where s = None and d = None and POSTS = POSTS0, THEN conjunct2, THEN conjunct1]
    by simp
  have 3: "get_posts (Some ''title'') (Some ''desc'') POSTS0 =
     (Inr (Jsonify_posts [seed_post2, seed_post1], 200), POSTS0)"
    by (simp add: get_posts_def sort_posts_by_def sorted_by_def stable_sort_def POSTS0_def
        seed_fields)
  have vd: "Some ''title'' = Some ''title'' \<and> (''title'' = ''title'' \<or> ''title'' = ''content'') \<and>
      (Some ''desc'' = Some ''asc'' \<or> Some ''desc'' = Some ''desc'')"
    by simp
  have va: "Some ''title'' = Some ''title'' \<and> (''title'' = ''title'' \<or> ''title'' = ''content'') \<and>
      (Some ''asc'' = Some ''asc'' \<or> Some ''asc'' = Some ''desc'')"
    by simp
  from inst [where s = "Some ''title''" and d = "Some ''desc''" and POSTS = POSTS0,
      THEN conjunct2, THEN conjunct2, THEN mp, OF vd, THEN conjunct1, THEN mp, OF seed_strings(1)]
  have "\<exists>r. get_posts (Some ''title'') (Some ''desc'') POSTS0 = (Inr (Jsonify_posts r, 200), POSTS0) \<and>
        sorted_stably (\<lambda>p. str_of (p ''title'')) (Some ''desc'' = Some ''desc'') POSTS0 r" .
  then have 4: "\<exists>r. get_posts (Some ''title'') (Some ''desc'') POSTS0 = (Inr (Jsonify_posts r, 200), POSTS0) \<and>
        sorted_stably (\<lambda>p. str_of (p ''title'')) True POSTS0 r"
    by simp
  have mixed: "(\<forall>p \<in> set int_title_store. p ''title'' \<noteq> None) \<and>
      (\<exists>p \<in> set int_title_store. is_str (p ''title'')) \<and>
      (\<exists>p \<in> set int_title_store. is_int (p ''title''))"
    by (intro conjI) (fact int_title_store_titles(1), fact int_title_store_titles(2),
      fact int_title_store_titles(3))
  from inst [where s = "Some ''title''" and d = "Some ''asc''" and POSTS = int_title_store,
      THEN conjunct2, THEN conjunct2, THEN mp, OF va, THEN conjunct2, THEN conjunct2,
      THEN conjunct2, THEN mp, OF mixed]
  have 5: "get_posts (Some ''title'') (Some ''asc'') int_title_store = (Inl TypeError, int_title_store)" .
  from 1 2 3 4 5 show ?thesis by (intro conjI)
qed

text \<open>
  Claim C3 as stated fails: \<open>sort=title\<close> without a direction is answered 200 with the
  posts in stored order, not 400.
\<close>

theorem get_posts_sort_alone_counterexample:
  "get_posts (Some ''title'') None POSTS0 = (Inr (Jsonify_posts POSTS0, 200), POSTS0)"
  by (simp add: get_posts_def)

end
